theory Spec2Isabelle
  imports Main "HOL-Library.Word"
begin

unbundle bit_operations_syntax

section \<open>Data model\<close>

text \<open>
  Bytes are 8-bit words and flash addresses are 32-bit words (\<open>uint32_t\<close>), so that
  \<open>addr+offset\<close> wraps as it does in C. JavaScript strings are byte lists.
\<close>

type_synonym u8 = "8 word"
type_synonym u32 = "32 word"
type_synonym bytes = "u8 list"

text \<open>\<open>JsfFileName\<close>: eight bytes, zero padded (\<open>fname.c[0..7]\<close>).\<close>

type_synonym JsfFileName = "u8 list"

record JsfFileHeader =
  hdr_size :: u32
  hdr_flags :: u32

text \<open>
  The journal store as this file sees it through \<open>jsflash.h\<close>: the live records
  (file name, address of the body, header) and the content of the flash memory.
\<close>

record flash_store =
  files :: "(JsfFileName \<times> u32 \<times> JsfFileHeader) list"
  flash :: "u32 \<Rightarrow> u8"

text \<open>
  The \<open>StorageFile\<close> object: the properties \<open>name\<close>, \<open>chunk\<close>, \<open>offset\<close>,
  \<open>addr\<close> and \<open>mode\<close> that \<open>jswrap_storage_open\<close> sets. \<open>mode\<close> is the character
  code of \<open>r\<close>, \<open>w\<close> or \<open>a\<close>, or 0 after \<open>erase\<close>.
\<close>

record StorageFile =
  sf_name :: bytes
  sf_chunk :: int
  sf_offset :: int
  sf_addr :: u32
  sf_mode :: u8

text \<open>The exceptions raised with \<open>jsExceptionHere\<close>, and the one \<open>jsfWriteFile\<close> leaves behind.\<close>

datatype error = InvalidMode | CantRead | CantWrite | FileTooBig | JsfWriteFailed

text \<open>A JavaScript value as \<open>Storage.write\<close> distinguishes them: \<open>jsvIsObject\<close> or not.\<close>

datatype 'o JsVar = JsObject 'o | JsData bytes

abbreviation ch :: "char \<Rightarrow> u8" where
  "ch c \<equiv> of_char c"

definition JSFF_NONE :: u32 where
  "JSFF_NONE = 0"

section \<open>The journal store primitives used by this file\<close>

text \<open>
  Modelled from the spec: \<open>jsfNameFromVar\<close> (jsflash.c is not part of the sources).
  A file name is a fixed-width identifier of 8 bytes; shorter names are right-padded with
  \<open>0x00\<close>.
\<close>

definition jsfNameFromVar :: "bytes \<Rightarrow> JsfFileName" where
  "jsfNameFromVar v = take 8 v @ replicate (8 - length v) 0"

text \<open>
  Modelled from the spec: \<open>jsfFindFile\<close>. Lookup by name among the live records; the
  result is the address of the body and the header, and address 0 when there is none.
\<close>

definition jsfFindFile :: "flash_store \<Rightarrow> JsfFileName \<Rightarrow> u32 \<times> JsfFileHeader" where
  "jsfFindFile st fname =
     (case map_of (files st) fname of
        None \<Rightarrow> (0, \<lparr>hdr_size = 0, hdr_flags = 0\<rparr>)
      | Some r \<Rightarrow> r)"

text \<open>Modelled from the spec: \<open>jsfGetFileSize\<close>, the \<open>size\<close> field of the header.\<close>

definition jsfGetFileSize :: "JsfFileHeader \<Rightarrow> u32" where
  "jsfGetFileSize header = hdr_size header"

text \<open>
  Modelled from the spec: \<open>jshFlashRead(dst, addr, len)\<close>, the bulk read of the flash
  driver: the \<open>len\<close> bytes from \<open>addr\<close> on.
\<close>

definition jshFlashRead :: "flash_store \<Rightarrow> u32 \<Rightarrow> nat \<Rightarrow> bytes" where
  "jshFlashRead st a l = map (\<lambda>i. flash st (a + of_nat i)) [0..<l]"

text \<open>
  Modelled from the spec: \<open>jsfEraseFile\<close> marks the live record deleted and returns
  true iff a live record existed. The flash bytes of the body stay as they are.
\<close>

definition jsfEraseFile :: "flash_store \<Rightarrow> JsfFileName \<Rightarrow> bool \<times> flash_store" where
  "jsfEraseFile st fname =
     (map_of (files st) fname \<noteq> None,
      st\<lparr>files := filter (\<lambda>r. fst r \<noteq> fname) (files st)\<rparr>)"

text \<open>
  Modelled from the spec: \<open>jsfReadFile\<close> returns a view of the live record's body, or
  nothing if the file is absent.
\<close>

definition jsfReadFile :: "flash_store \<Rightarrow> JsfFileName \<Rightarrow> bytes option" where
  "jsfReadFile st fname =
     (let (addr, header) = jsfFindFile st fname
      in if addr = 0 then None
         else Some (jshFlashRead st addr (unat (jsfGetFileSize header))))"

text \<open>
  Modelled from the spec: \<open>jswrap_flash_write(data, addr)\<close> (jswrap_flash.c is not part
  of the sources) programs the bytes of \<open>data\<close> from \<open>addr\<close> on; programming can only
  turn a 1 bit into a 0 bit.
\<close>

fun flash_program :: "(u32 \<Rightarrow> u8) \<Rightarrow> u32 \<Rightarrow> bytes \<Rightarrow> (u32 \<Rightarrow> u8)" where
  "flash_program m a [] = m"
| "flash_program m a (b # bs) = flash_program (m(a := m a AND b)) (a + 1) bs"

definition jswrap_flash_write :: "flash_store \<Rightarrow> bytes \<Rightarrow> u32 \<Rightarrow> flash_store" where
  "jswrap_flash_write st data a = st\<lparr>flash := flash_program (flash st) a data\<rparr>"

text \<open>
  \<open>jsfWriteFile(name, data, flags, offset, size)\<close> is not part of the sources either. The
  functions that call it take it as the parameter \<open>jsfWriteFile\<close>: any function from the
  store and the five arguments to the success flag and the new store.
\<close>

type_synonym jsfWriteFile_t =
  "flash_store \<Rightarrow> JsfFileName \<Rightarrow> bytes \<Rightarrow> u32 \<Rightarrow> int \<Rightarrow> int \<Rightarrow> bool \<times> flash_store"

section \<open>Storage\<close>

definition jswrap_storage_read :: "flash_store \<Rightarrow> bytes \<Rightarrow> bytes option" where
  "jswrap_storage_read st name = jsfReadFile st (jsfNameFromVar name)"

text \<open>
  \<open>jswrap_json_parse\<close> is the external parser, the parameter \<open>jswrap_json_parse\<close>; its
  result is a value, or nothing.
\<close>

definition jswrap_storage_readJSON :: "(bytes \<Rightarrow> 'j option) \<Rightarrow> flash_store \<Rightarrow> bytes \<Rightarrow> 'j option" where
  "jswrap_storage_readJSON jswrap_json_parse st name =
     (case jsfReadFile st (jsfNameFromVar name) of
        None \<Rightarrow> None
      | Some v \<Rightarrow> jswrap_json_parse v)"

text \<open>The spec's words for \<open>readJSON\<close>: parse the result of \<open>read\<close>.\<close>

definition readJSON_spec :: "(bytes \<Rightarrow> 'j option) \<Rightarrow> flash_store \<Rightarrow> bytes \<Rightarrow> 'j option" where
  "readJSON_spec parse st name = Option.bind (jswrap_storage_read st name) parse"

text \<open>\<open>jswrap_json_stringify\<close> is the external encoder, the parameter of that name.\<close>

definition jswrap_storage_write ::
  "jsfWriteFile_t \<Rightarrow> ('o \<Rightarrow> bytes) \<Rightarrow> flash_store \<Rightarrow> bytes \<Rightarrow> 'o JsVar \<Rightarrow> int \<Rightarrow> int
     \<Rightarrow> bool \<times> flash_store" where
  "jswrap_storage_write jsfWriteFile jswrap_json_stringify st name data offset size' =
     (case data of
        JsObject obj \<Rightarrow>
          jsfWriteFile st (jsfNameFromVar name) (jswrap_json_stringify obj) JSFF_NONE 0 0
      | JsData d \<Rightarrow>
          jsfWriteFile st (jsfNameFromVar name) d JSFF_NONE offset size')"

section \<open>StorageFile\<close>

text \<open>\<open>while (fnamei && fname.c[fnamei-1]==0) fnamei--;\<close>\<close>

fun fnamei_loop :: "JsfFileName \<Rightarrow> nat \<Rightarrow> nat" where
  "fnamei_loop fname 0 = 0"
| "fnamei_loop fname (Suc n) = (if fname ! n = 0 then fnamei_loop fname n else Suc n)"

text \<open>\<open>fname.c[fnamei]=chunk\<close>: the \<open>int\<close> is cut to a \<open>char\<close>.\<close>

definition set_chunk :: "JsfFileName \<Rightarrow> nat \<Rightarrow> int \<Rightarrow> JsfFileName" where
  "set_chunk fname fnamei chunk = fname[fnamei := word_of_int chunk]"

subsection \<open>erase\<close>

function erase_loop :: "flash_store \<Rightarrow> JsfFileName \<Rightarrow> nat \<Rightarrow> int \<Rightarrow> flash_store" where
  "erase_loop st fname fnamei chunk =
     (let fname' = set_chunk fname fnamei chunk;
          (ok, st') = jsfEraseFile st fname'
      in if ok then erase_loop st' fname' fnamei (chunk + 1) else st')"
  by pat_completeness auto
termination
  by (relation "measure (\<lambda>(st, fname, fnamei, chunk). length (files st))")
     (auto simp: jsfEraseFile_def map_of_eq_None_iff intro!: length_filter_less)

definition jswrap_storagefile_erase :: "flash_store \<Rightarrow> StorageFile \<Rightarrow> flash_store \<times> StorageFile" where
  "jswrap_storagefile_erase st f =
     (let fname = jsfNameFromVar (sf_name f);
          fnamei = fnamei_loop fname 7;
          st' = erase_loop st fname fnamei 1
      in (st', f\<lparr>sf_chunk := 1, sf_offset := 0, sf_addr := 0, sf_mode := 0\<rparr>))"

subsection \<open>open\<close>

text \<open>The walk over the chunks in append mode; the result is \<open>chunk\<close> and \<open>addr\<close>.\<close>

function append_walk :: "flash_store \<Rightarrow> JsfFileName \<Rightarrow> nat \<Rightarrow> int \<Rightarrow> u32 \<Rightarrow> u8 \<Rightarrow> int \<times> u32" where
  "append_walk st fname fnamei chunk addr lastCh =
     (if addr \<noteq> 0 \<and> lastCh \<noteq> 255 \<and> chunk < 255 then
        let chunk' = chunk + 1;
            fname' = set_chunk fname fnamei chunk';
            (addr', header) = jsfFindFile st fname';
            lastCh' = (if addr' \<noteq> 0
                       then hd (jshFlashRead st (addr' + jsfGetFileSize header - 1) 1)
                       else lastCh)
        in append_walk st fname' fnamei chunk' addr' lastCh'
      else (chunk, addr))"
  by pat_completeness auto
termination
  by (relation "measure (\<lambda>(st, fname, fnamei, chunk, addr, lastCh). nat (255 - chunk))") auto

text \<open>The inner \<open>for\<close> loop of the scan: the first index of the buffer that holds 255.\<close>

fun first_ff :: "bytes \<Rightarrow> nat option" where
  "first_ff [] = None"
| "first_ff (b # bs) = (if b = 255 then Some 0 else map_option Suc (first_ff bs))"

text \<open>The \<open>while (!foundEnd)\<close> loop, in reads of at most 64 bytes; the result is \<open>offset\<close>.\<close>

function append_scan :: "nat \<Rightarrow> flash_store \<Rightarrow> u32 \<Rightarrow> int \<Rightarrow> int" where
  "append_scan cs st addr offset =
     (let l = int cs - offset
      in if l \<le> 0 then offset
         else let l' = (if l > 64 then 64 else nat l);
                  buf = jshFlashRead st (addr + word_of_int offset) l'
              in case first_ff buf of
                   Some i \<Rightarrow> offset + int i
                 | None \<Rightarrow> append_scan cs st addr (offset + int l'))"
  by pat_completeness auto
termination
  by (relation "measure (\<lambda>(cs, st, addr, offset). nat (int cs - offset))")
     (auto split: if_splits)

text \<open>
  \<open>STORAGEFILE_CHUNKSIZE\<close> is \<open>FLASH_PAGE_SIZE - sizeof(JsfFileHeader)\<close>, two constants of
  other files: it is the parameter \<open>cs\<close>. The object \<open>f\<close> holds only its name when
  \<open>jswrap_storagefile_erase\<close> is called on it. Running out of memory for the object
  (\<open>if (!f) return 0\<close>) is not modelled.
\<close>

definition jswrap_storage_open ::
  "nat \<Rightarrow> flash_store \<Rightarrow> bytes \<Rightarrow> bytes \<Rightarrow> flash_store \<times> (error + StorageFile)" where
  "jswrap_storage_open cs st name modeVar =
     (if modeVar \<noteq> [ch CHR ''r''] \<and> modeVar \<noteq> [ch CHR ''w''] \<and> modeVar \<noteq> [ch CHR ''a'']
      then (st, Inl InvalidMode)
      else
        let mode = hd modeVar;
            chunk = 1;
            n = take 8 name;
            fname0 = jsfNameFromVar n;
            fnamei = fnamei_loop fname0 7;
            fname = set_chunk fname0 fnamei chunk;
            f = \<lparr>sf_name = n, sf_chunk = 0, sf_offset = 0, sf_addr = 0, sf_mode = 0\<rparr>;
            offset = 0;
            (addr, header) = jsfFindFile st fname;
            (st1, addr1) = (if mode = ch CHR ''w'' \<and> addr \<noteq> 0
                            then (fst (jswrap_storagefile_erase st f), 0)
                            else (st, addr));
            (chunk2, offset2, addr2) =
              (if mode = ch CHR ''a'' then
                 let lastCh = (if addr1 \<noteq> 0
                               then hd (jshFlashRead st1 (addr1 + jsfGetFileSize header - 1) 1)
                               else 255);
                     (chunk', addr') = append_walk st1 fname fnamei chunk addr1 lastCh;
                     offset' = (if addr' \<noteq> 0 then append_scan cs st1 addr' offset else offset)
                 in (chunk', offset', addr')
               else (chunk, offset, addr1))
        in (st1, Inr \<lparr>sf_name = n, sf_chunk = chunk2, sf_offset = offset2,
                      sf_addr = addr2, sf_mode = mode\<rparr>))"

subsection \<open>read and readLine\<close>

text \<open>
  The local variables of \<open>jswrap_storagefile_read_internal\<close> that its \<open>while (len)\<close> loop
  changes, with the object \<open>f\<close> whose properties the loop sets. \<open>len\<close> and \<open>l\<close> are
  never negative inside the loop (a negative \<open>len\<close> selects readLine before it).
\<close>

record read_state =
  rs_len :: nat
  rs_offset :: int
  rs_chunk :: int
  rs_addr :: u32
  rs_fname :: JsfFileName
  rs_result :: "bytes option"
  rs_isReadLine :: bool
  rs_f :: StorageFile

text \<open>How one pass of the loop body ends: at its end, with \<open>break\<close>, or with \<open>return result\<close>.\<close>

datatype ctl = Continue | Break | Return

text \<open>
  The inner \<open>for\<close> loop over the buffer, from index \<open>i\<close>: \<open>Some (l, isReadLine)\<close> when it
  leaves with \<open>break\<close> (then \<open>len = l\<close> too), \<open>None\<close> when it runs to the end.
\<close>

fun scan_buf :: "bool \<Rightarrow> bytes \<Rightarrow> nat \<Rightarrow> (nat \<times> bool) option" where
  "scan_buf isReadLine [] i = None"
| "scan_buf isReadLine (b # bs) i =
     (if b = 255 then Some (i, isReadLine)
      else if isReadLine \<and> b = ch CHR 0x0A then Some (i + 1, False)
      else scan_buf isReadLine bs (i + 1))"

definition read_body :: "nat \<Rightarrow> flash_store \<Rightarrow> nat \<Rightarrow> read_state \<Rightarrow> ctl \<times> read_state" where
  "read_body cs st fnamei s =
     (let remaining = int cs - rs_offset s;
          s1 = (if remaining \<le> 0 then
                  let (chunk', fname', addr') =
                        (if rs_chunk s = 255 then (rs_chunk s, rs_fname s, 0)
                         else let c = rs_chunk s + 1;
                                  fn = set_chunk (rs_fname s) fnamei c
                              in (c, fn, fst (jsfFindFile st fn)))
                  in s\<lparr>rs_offset := 0, rs_chunk := chunk', rs_fname := fname', rs_addr := addr',
                       rs_f := (rs_f s)\<lparr>sf_addr := addr', sf_offset := 0, sf_chunk := chunk'\<rparr>\<rparr>
                else s);
          remaining1 = (if remaining \<le> 0 then int cs else remaining)
      in if remaining \<le> 0 \<and> rs_addr s1 = 0 then (Return, s1)
         else
           let l0 = min (min (rs_len s1) 32) (nat remaining1);
               buf = jshFlashRead st (rs_addr s1 + word_of_int (rs_offset s1)) l0;
               (l, len, isReadLine) =
                 (case scan_buf (rs_isReadLine s1) buf 0 of
                    None \<Rightarrow> (l0, rs_len s1, rs_isReadLine s1)
                  | Some (i, rl) \<Rightarrow> (i, i, rl))
           in if l = 0 then (Break, s1\<lparr>rs_len := len, rs_isReadLine := isReadLine\<rparr>)
              else
                let result = Some ((case rs_result s1 of None \<Rightarrow> [] | Some r \<Rightarrow> r) @ take l buf)
                in (Continue,
                    s1\<lparr>rs_result := result,
                       rs_len := (if isReadLine then 32 else len - l),
                       rs_offset := rs_offset s1 + int l,
                       rs_isReadLine := isReadLine\<rparr>))"

text \<open>
  The \<open>while (len)\<close> loop. A handle whose \<open>chunk\<close> is above 255 can keep readLine running
  for ever, so the loop is a partial function: \<open>None\<close> is not returning.
\<close>

partial_function (option) read_loop ::
  "nat \<Rightarrow> flash_store \<Rightarrow> nat \<Rightarrow> read_state \<Rightarrow> (ctl \<times> read_state) option" where
  "read_loop cs st fnamei s =
     (if rs_len s = 0 then Some (Break, s)
      else let r = read_body cs st fnamei s
           in if fst r = Continue then read_loop cs st fnamei (snd r) else Some r)"

declare read_loop.simps [code]

definition jswrap_storagefile_read_internal ::
  "nat \<Rightarrow> flash_store \<Rightarrow> StorageFile \<Rightarrow> int \<Rightarrow> (StorageFile \<times> (error + bytes option)) option" where
  "jswrap_storagefile_read_internal cs st f len =
     (let isReadLine = len < 0;
          mode = sf_mode f
      in if mode \<noteq> ch CHR ''r'' then Some (f, Inl CantRead)
         else
           let addr = sf_addr f
           in if addr = 0 then Some (f, Inr None)
              else
                let offset = sf_offset f;
                    chunk = sf_chunk f;
                    fname0 = jsfNameFromVar (sf_name f);
                    fnamei = fnamei_loop fname0 7;
                    fname = set_chunk fname0 fnamei chunk;
                    s0 = \<lparr>rs_len = (if isReadLine then 32 else nat len), rs_offset = offset,
                          rs_chunk = chunk, rs_addr = addr, rs_fname = fname, rs_result = None,
                          rs_isReadLine = isReadLine, rs_f = f\<rparr>
                in case read_loop cs st fnamei s0 of
                     None \<Rightarrow> None
                   | Some (c, s) \<Rightarrow>
                       Some (if c = Return then rs_f s
                             else (rs_f s)\<lparr>sf_offset := rs_offset s\<rparr>,
                             Inr (rs_result s)))"

definition jswrap_storagefile_read ::
  "nat \<Rightarrow> flash_store \<Rightarrow> StorageFile \<Rightarrow> int \<Rightarrow> (StorageFile \<times> (error + bytes option)) option" where
  "jswrap_storagefile_read cs st f len =
     jswrap_storagefile_read_internal cs st f (if len < 0 then 0 else len)"

definition jswrap_storagefile_readLine ::
  "nat \<Rightarrow> flash_store \<Rightarrow> StorageFile \<Rightarrow> (StorageFile \<times> (error + bytes option)) option" where
  "jswrap_storagefile_readLine cs st f = jswrap_storagefile_read_internal cs st f (- 1)"

subsection \<open>write\<close>

text \<open>
  \<open>len<remaining\<close> compares a \<open>size_t\<close> with an \<open>int\<close>, and \<open>jsvNewFromStringVar\<close> takes
  \<open>remaining\<close> as a \<open>size_t\<close>: the \<open>int\<close> is converted to unsigned, 32 bits wide on the
  target. The result is the store, the object and the exception raised, if any.
\<close>

definition jswrap_storagefile_write ::
  "jsfWriteFile_t \<Rightarrow> nat \<Rightarrow> flash_store \<Rightarrow> StorageFile \<Rightarrow> bytes
     \<Rightarrow> flash_store \<times> StorageFile \<times> error option" where
  "jswrap_storagefile_write jsfWriteFile cs st f data =
     (let mode = sf_mode f
      in if mode \<noteq> ch CHR ''w'' \<and> mode \<noteq> ch CHR ''a'' then (st, f, Some CantWrite)
         else
           let len = length data
           in if len = 0 then (st, f, None)
              else
                let offset = sf_offset f;
                    chunk = sf_chunk f;
                    fname0 = jsfNameFromVar (sf_name f);
                    fnamei = fnamei_loop fname0 7;
                    fname = set_chunk fname0 fnamei chunk;
                    addr = sf_addr f;
                    remaining = int cs - offset
                in if addr = 0 then
                     (case jsfWriteFile st fname data JSFF_NONE 0 (int cs) of
                        (True, st') \<Rightarrow>
                          (st', f\<lparr>sf_offset := int len, sf_addr := fst (jsfFindFile st' fname)\<rparr>,
                           None)
                      | (False, st') \<Rightarrow> (st', f, Some JsfWriteFailed))
                   else if int len < remaining mod 2 ^ 32 then
                     (jswrap_flash_write st data (addr + word_of_int offset),
                      f\<lparr>sf_offset := offset + int len\<rparr>, None)
                   else
                     let part = take (nat (remaining mod 2 ^ 32)) data;
                         st1 = jswrap_flash_write st part (addr + word_of_int offset)
                     in if chunk = 255 then (st1, f, Some FileTooBig)
                        else
                          let chunk' = chunk + 1;
                              fname' = set_chunk fname fnamei chunk';
                              f1 = f\<lparr>sf_chunk := chunk'\<rparr>;
                              part' = drop (nat (remaining mod 2 ^ 32)) data
                          in case jsfWriteFile st1 fname' part' JSFF_NONE 0 (int cs) of
                               (True, st2) \<Rightarrow>
                                 (st2,
                                  f1\<lparr>sf_offset := int (length part'),
                                     sf_addr := fst (jsfFindFile st2 fname')\<rparr>,
                                  None)
                             | (False, st2) \<Rightarrow> (st2, f1, Some JsfWriteFailed))"

section \<open>The stream behind a handle\<close>

text \<open>The file name of chunk \<open>chunk\<close> of the stream \<open>name\<close>, as all four functions build it.\<close>

definition chunk_name :: "bytes \<Rightarrow> int \<Rightarrow> JsfFileName" where
  "chunk_name name chunk =
     (let fname = jsfNameFromVar name in set_chunk fname (fnamei_loop fname 7) chunk)"

text \<open>
  The bytes of the chunks \<open>k\<close>, \<open>k+1\<close>, ... of a stream, \<open>cs\<close> bytes each, up to the first
  chunk that does not exist and to chunk 255 at most.
\<close>

function stream_from_chunk :: "nat \<Rightarrow> flash_store \<Rightarrow> bytes \<Rightarrow> int \<Rightarrow> bytes" where
  "stream_from_chunk cs st name k =
     (if k < 1 \<or> 255 < k then []
      else let addr = fst (jsfFindFile st (chunk_name name k))
           in if addr = 0 then []
              else jshFlashRead st addr cs @ stream_from_chunk cs st name (k + 1))"
  by pat_completeness auto
termination
  by (relation "measure (\<lambda>(cs, st, name, k). nat (256 - k))") auto

text \<open>The count of the bytes of a stream that are not \<open>0xFF\<close>.\<close>

definition data_count :: "bytes \<Rightarrow> nat" where
  "data_count s = length (filter (\<lambda>b. b \<noteq> 255) s)"

text \<open>Every chunk of the stream that exists has a body of \<open>cs\<close> bytes.\<close>

definition chunks_sized :: "nat \<Rightarrow> flash_store \<Rightarrow> bytes \<Rightarrow> bool" where
  "chunks_sized cs st name =
     list_all (\<lambda>k. case jsfFindFile st (chunk_name name k) of
                     (addr, header) \<Rightarrow> addr = 0 \<or> jsfGetFileSize header = of_nat cs)
       [1..255]"

text \<open>
  The bytes from the position of a handle on: the rest of its chunk, which it reads at
  the address it holds, and the chunks after it. A handle with address 0 is at the end.
\<close>

definition pos_stream :: "nat \<Rightarrow> flash_store \<Rightarrow> bytes \<Rightarrow> int \<Rightarrow> u32 \<Rightarrow> int \<Rightarrow> bytes" where
  "pos_stream cs st name chunk addr offset =
     drop (nat offset) (jshFlashRead st addr cs) @ stream_from_chunk cs st name (chunk + 1)"

definition stream_at :: "nat \<Rightarrow> flash_store \<Rightarrow> StorageFile \<Rightarrow> bytes" where
  "stream_at cs st f =
     (if sf_addr f = 0 then []
      else pos_stream cs st (sf_name f) (sf_chunk f) (sf_addr f) (sf_offset f))"

text \<open>The bytes before the first \<open>0xFF\<close>: what can be read.\<close>

definition readable :: "bytes \<Rightarrow> bytes" where
  "readable s = takeWhile (\<lambda>b. b \<noteq> 255) s"

text \<open>The first line of a byte string: up to the first newline, which belongs to it.\<close>

definition line_of :: "bytes \<Rightarrow> bytes" where
  "line_of s = takeWhile (\<lambda>b. b \<noteq> 10) s @ take 1 (dropWhile (\<lambda>b. b \<noteq> 10) s)"

text \<open>What \<open>read\<close> and \<open>readLine\<close> return for the bytes they have read: nothing for none.\<close>

definition result_of :: "bytes \<Rightarrow> bytes option" where
  "result_of bs = (if bs = [] then None else Some bs)"

text \<open>
  What one call is to return from the readable bytes \<open>R\<close>: a line for readLine, at most
  \<open>len\<close> bytes for read; and the result after the bytes \<open>bs\<close> were appended to it.
\<close>

definition want :: "bool \<Rightarrow> nat \<Rightarrow> bytes \<Rightarrow> bytes" where
  "want rl len R = (if rl then line_of R else take len R)"

definition app_result :: "bytes option \<Rightarrow> bytes \<Rightarrow> bytes option" where
  "app_result r bs = (if bs = [] then r else Some ((case r of None \<Rightarrow> [] | Some x \<Rightarrow> x) @ bs))"

text \<open>The state of the loop after it has moved to the next chunk.\<close>

definition advance :: "flash_store \<Rightarrow> nat \<Rightarrow> read_state \<Rightarrow> read_state" where
  "advance st fnamei s =
     (let c = rs_chunk s + 1;
          fn = set_chunk (rs_fname s) fnamei c;
          a = fst (jsfFindFile st fn)
      in s\<lparr>rs_offset := 0, rs_chunk := c, rs_fname := fn, rs_addr := a,
           rs_f := (rs_f s)\<lparr>sf_addr := a, sf_offset := 0, sf_chunk := c\<rparr>\<rparr>)"

text \<open>
  The states of the loop that a well-formed handle leads to, the handle that
  \<open>jswrap_storagefile_read_internal\<close> returns after the loop, the stream and the bytes
  wanted at a state, and what the loop is to achieve from a state.
\<close>

definition rs_inv :: "nat \<Rightarrow> bytes \<Rightarrow> nat \<Rightarrow> read_state \<Rightarrow> bool" where
  "rs_inv cs name fnamei s \<longleftrightarrow>
     0 \<le> rs_offset s \<and> 1 \<le> rs_chunk s \<and> rs_chunk s \<le> 255 \<and> rs_addr s \<noteq> 0 \<and>
     rs_fname s = chunk_name name (rs_chunk s) \<and>
     fnamei = fnamei_loop (jsfNameFromVar name) 7 \<and>
     (rs_isReadLine s \<longrightarrow> rs_len s = 32) \<and>
     sf_name (rs_f s) = name \<and> sf_addr (rs_f s) = rs_addr s \<and> sf_chunk (rs_f s) = rs_chunk s"

definition final_handle :: "ctl \<times> read_state \<Rightarrow> StorageFile" where
  "final_handle r =
     (if fst r = Return then rs_f (snd r) else (rs_f (snd r))\<lparr>sf_offset := rs_offset (snd r)\<rparr>)"

definition rs_stream :: "nat \<Rightarrow> flash_store \<Rightarrow> bytes \<Rightarrow> read_state \<Rightarrow> bytes" where
  "rs_stream cs st name s = pos_stream cs st name (rs_chunk s) (rs_addr s) (rs_offset s)"

definition rs_want :: "nat \<Rightarrow> flash_store \<Rightarrow> bytes \<Rightarrow> read_state \<Rightarrow> bytes" where
  "rs_want cs st name s = want (rs_isReadLine s) (rs_len s) (readable (rs_stream cs st name s))"

definition read_ok ::
  "nat \<Rightarrow> flash_store \<Rightarrow> bytes \<Rightarrow> read_state \<Rightarrow> ctl \<times> read_state \<Rightarrow> bool" where
  "read_ok cs st name s r \<longleftrightarrow>
     rs_result (snd r) = app_result (rs_result s) (rs_want cs st name s) \<and>
     sf_name (final_handle r) = name \<and>
     sf_mode (final_handle r) = sf_mode (rs_f s) \<and>
     0 \<le> sf_offset (final_handle r) \<and>
     1 \<le> sf_chunk (final_handle r) \<and> sf_chunk (final_handle r) \<le> 255 \<and>
     stream_at cs st (final_handle r) =
       drop (length (rs_want cs st name s)) (rs_stream cs st name s)"

section \<open>Concrete stores, handles and journal outcomes\<close>

definition str :: "string \<Rightarrow> bytes" where
  "str s = map of_char s"

definition erased :: "u32 \<Rightarrow> u8" where
  "erased a = 255"

definition empty_store :: flash_store where
  "empty_store = \<lparr>files = [], flash = erased\<rparr>"

text \<open>
  Modelled from the spec: two outcomes of \<open>jsfWriteFile\<close>. In \<open>jsfWriteFile_at a\<close> the
  record is reserved with its body at address \<open>a\<close>, of length \<open>size\<close> (of the length of
  the data when \<open>size\<close> is 0), and the data is written at \<open>offset\<close> inside it; the other
  bytes stay as they are. In \<open>no_room\<close> there is no room and the call fails.
\<close>

definition jsfWriteFile_at :: "u32 \<Rightarrow> jsfWriteFile_t" where
  "jsfWriteFile_at a st fname data flags offset size' =
     (True,
      st\<lparr>files := (fname, a, \<lparr>hdr_size = word_of_int (if size' = 0 then int (length data) else size'),
                              hdr_flags = flags\<rparr>) # files st,
         flash := flash_program (flash st) (a + word_of_int offset) data\<rparr>)"

definition no_room :: jsfWriteFile_t where
  "no_room st fname data flags offset size' = (False, st)"

text \<open>A handle on chunk 1 of the stream \<open>log\<close>, at address 4096, at the given offset.\<close>

definition log_handle :: "char \<Rightarrow> int \<Rightarrow> StorageFile" where
  "log_handle m off = \<lparr>sf_name = str ''log'', sf_chunk = 1, sf_offset = off, sf_addr = 4096,
     sf_mode = ch m\<rparr>"

text \<open>The store that holds chunk 1 of the stream \<open>log\<close>, of 32 erased bytes at address 4096.\<close>

definition log_store :: flash_store where
  "log_store = \<lparr>files = [(str ''log'' @ [1, 0, 0, 0, 0], 4096, \<lparr>hdr_size = 32, hdr_flags = 0\<rparr>)],
     flash = erased\<rparr>"

text \<open>
  The store that holds the 255 chunks of the stream \<open>log\<close>, 32 bytes each from address
  4096 on and every byte an \<open>x\<close>, and the plain file \<open>log\<close>.
\<close>

definition full_store :: flash_store where
  "full_store =
     \<lparr>files = (str ''log'' @ [0, 0, 0, 0, 0], 2048, \<lparr>hdr_size = 32, hdr_flags = 0\<rparr>) #
              map (\<lambda>k. (str ''log'' @ [of_nat k, 0, 0, 0, 0], 4096 + 32 * of_nat k,
                        \<lparr>hdr_size = 32, hdr_flags = 0\<rparr>)) [1..<256],
      flash = (\<lambda>a. ch CHR ''x'')\<rparr>"

text \<open>
  The store of the stream \<open>log\<close> after 40 bytes \<open>x\<close> were written to it: chunk 1 is
  full and chunk 2 holds 8 bytes.
\<close>

definition scenario_store :: flash_store where
  "scenario_store =
     \<lparr>files = [(str ''log'' @ [1, 0, 0, 0, 0], 4096, \<lparr>hdr_size = 32, hdr_flags = 0\<rparr>),
               (str ''log'' @ [2, 0, 0, 0, 0], 8192, \<lparr>hdr_size = 32, hdr_flags = 0\<rparr>)],
      flash = flash_program (flash_program erased 4096 (replicate 32 (ch CHR ''x''))) 8192
                (replicate 8 (ch CHR ''x''))\<rparr>"

text \<open>
  The store after the three lines \<open>one\<close>, \<open>two\<close> and \<open>three\<close>, the first two
  ended by a newline, were written to the fresh stream \<open>log\<close>: the stream is opened for
  writing on the empty store, and the write allocates chunk 1 at address 4096.
\<close>

definition three_lines :: bytes where
  "three_lines = str ''one'' @ [10] @ str ''two'' @ [10] @ str ''three''"

definition lines_store :: flash_store where
  "lines_store =
     (case jswrap_storage_open 32 empty_store (str ''log'') (str ''w'') of
        (st, Inr f) \<Rightarrow> fst (jswrap_storagefile_write (jsfWriteFile_at 4096) 32 st f three_lines)
      | (st, Inl e) \<Rightarrow> st)"

text \<open>
  The store after 40 bytes \<open>x\<close> were written in one call to the fresh stream \<open>log\<close>, opened
  for writing on the empty store: the write allocates chunk 1 at address 4096.
\<close>

definition long_store :: flash_store where
  "long_store =
     (case jswrap_storage_open 32 empty_store (str ''log'') (str ''w'') of
        (st, Inr f) \<Rightarrow>
          fst (jswrap_storagefile_write (jsfWriteFile_at 4096) 32 st f (replicate 40 (ch CHR ''x'')))
      | (st, Inl e) \<Rightarrow> st)"

declare append_scan.simps [simp del] append_walk.simps [simp del] erase_loop.simps [simp del]
  stream_from_chunk.simps [simp del]

section \<open>Storage: readJSON and write\<close>

text \<open>
  C8. For every name, \<open>readJSON(name)\<close> is the result of the external parser on the result
  of \<open>read(name)\<close>, and nothing when \<open>read(name)\<close> is nothing: the function from the source
  agrees with the definition in the spec's words.
\<close>

theorem readJSON_is_parse_of_read:
  "jswrap_storage_readJSON parse st name = readJSON_spec parse st name \<and>
   jswrap_storage_readJSON parse st name =
     (case jswrap_storage_read st name of None \<Rightarrow> None | Some v \<Rightarrow> parse v)"
  by (simp add: jswrap_storage_readJSON_def readJSON_spec_def jswrap_storage_read_def
      split: option.split)

text \<open>
  C9. When the data of \<open>Storage.write\<close> is an object, what reaches \<open>jsfWriteFile\<close> is the
  JSON string of the object with offset 0 and size 0, whatever offset and size the caller
  gave.
\<close>

theorem write_object_ignores_offset_size:
  "jswrap_storage_write jsfWriteFile stringify st name (JsObject obj) offset size' =
     jsfWriteFile st (jsfNameFromVar name) (stringify obj) JSFF_NONE 0 0"
  by (simp add: jswrap_storage_write_def)

section \<open>Storage.open: argument errors\<close>

text \<open>
  A name of nine bytes opened for reading: no error is raised, and the handle is built
  with the first eight bytes of the name.
\<close>

theorem open_long_name_counterexample:
  "length (str ''logfile_x'') > 7 \<and>
   jswrap_storage_open 32 empty_store (str ''logfile_x'') (str ''r'') =
     (empty_store, Inr \<lparr>sf_name = str ''logfile_'', sf_chunk = 1, sf_offset = 0, sf_addr = 0,
                         sf_mode = ch CHR ''r''\<rparr>)"
  by (simp add: jswrap_storage_open_def str_def empty_store_def jsfNameFromVar_def set_chunk_def
      jsfFindFile_def)

text \<open>
  C4, as amended. A mode other than \<open>r\<close>, \<open>w\<close> or \<open>a\<close> raises the invalid mode error,
  and neither the store changes nor is a handle built. With one of the three modes no
  error is raised, whatever the length of the name: the handle is built, its name the
  first eight bytes of the name given.
\<close>

theorem open_argument_errors:
  "(modeVar \<noteq> str ''r'' \<and> modeVar \<noteq> str ''w'' \<and> modeVar \<noteq> str ''a'' \<longrightarrow>
      jswrap_storage_open cs st name modeVar = (st, Inl InvalidMode)) \<and>
   (modeVar = str ''r'' \<or> modeVar = str ''w'' \<or> modeVar = str ''a'' \<longrightarrow>
      (\<exists>f. snd (jswrap_storage_open cs st name modeVar) = Inr f \<and> sf_name f = take 8 name \<and>
           [sf_mode f] = modeVar))"
  by (auto simp: jswrap_storage_open_def str_def Let_def split: prod.splits)

theorem open_argument_errors_witness:
  "jswrap_storage_open 32 empty_store (str ''logfile_x'') (str ''rw'') =
     (empty_store, Inl InvalidMode) \<and>
   (\<exists>f. snd (jswrap_storage_open 32 empty_store (str ''logfile_x'') (str ''a'')) = Inr f \<and>
        sf_name f = str ''logfile_'' \<and> sf_mode f = ch CHR ''a'')"
  using open_argument_errors [of "str ''rw''" 32 empty_store "str ''logfile_x''"]
    open_argument_errors [of "str ''a''" 32 empty_store "str ''logfile_x''"]
  by (simp add: str_def)

section \<open>StorageFile: the mode checks\<close>

text \<open>
  C6. When the mode of the handle is not \<open>r\<close>, \<open>read\<close> and \<open>readLine\<close> raise the error
  and leave the handle as it is (they have no access to the store but reading); when the
  mode is neither \<open>w\<close> nor \<open>a\<close>, \<open>write\<close> raises the error and leaves the handle and the
  store as they are.
\<close>

theorem wrong_mode_errors:
  "(sf_mode f \<noteq> ch CHR ''r'' \<longrightarrow>
      jswrap_storagefile_read cs st f len = Some (f, Inl CantRead) \<and>
      jswrap_storagefile_readLine cs st f = Some (f, Inl CantRead)) \<and>
   (sf_mode f \<noteq> ch CHR ''w'' \<and> sf_mode f \<noteq> ch CHR ''a'' \<longrightarrow>
      jswrap_storagefile_write jsfWriteFile cs st f data = (st, f, Some CantWrite))"
  by (simp add: jswrap_storagefile_read_def jswrap_storagefile_readLine_def
      jswrap_storagefile_read_internal_def jswrap_storagefile_write_def)

theorem wrong_mode_errors_witness:
  "jswrap_storagefile_read 32 log_store (log_handle CHR ''a'' 0) 10 =
     Some (log_handle CHR ''a'' 0, Inl CantRead) \<and>
   jswrap_storagefile_readLine 32 log_store (log_handle CHR ''a'' 0) =
     Some (log_handle CHR ''a'' 0, Inl CantRead) \<and>
   jswrap_storagefile_write no_room 32 log_store (log_handle CHR ''r'' 0) (str ''abc'') =
     (log_store, log_handle CHR ''r'' 0, Some CantWrite)"
  using wrong_mode_errors [of "log_handle CHR ''a'' 0" 32 log_store 10]
    wrong_mode_errors [of "log_handle CHR ''r'' 0" 32 log_store 10 no_room "str ''abc''"]
  by (simp add: log_handle_def)

text \<open>
  C10. The handle that \<open>erase\<close> returns has mode 0: on it, and on any store, \<open>read\<close>,
  \<open>readLine\<close> and \<open>write\<close> raise the wrong mode error and change neither the handle nor
  the store; the outcome does not depend on what the flash holds.
\<close>

theorem erased_handle_wrong_mode:
  "sf_mode (snd (jswrap_storagefile_erase st f)) = 0 \<and>
   jswrap_storagefile_read cs st2 (snd (jswrap_storagefile_erase st f)) len =
     Some (snd (jswrap_storagefile_erase st f), Inl CantRead) \<and>
   jswrap_storagefile_readLine cs st2 (snd (jswrap_storagefile_erase st f)) =
     Some (snd (jswrap_storagefile_erase st f), Inl CantRead) \<and>
   jswrap_storagefile_write jsfWriteFile cs st2 (snd (jswrap_storagefile_erase st f)) data =
     (st2, snd (jswrap_storagefile_erase st f), Some CantWrite)"
  by (simp add: jswrap_storagefile_erase_def jswrap_storagefile_read_def
      jswrap_storagefile_readLine_def jswrap_storagefile_read_internal_def
      jswrap_storagefile_write_def Let_def)

theorem erased_handle_wrong_mode_witness:
  "files (fst (jswrap_storagefile_erase log_store (log_handle CHR ''r'' 5))) = [] \<and>
   jswrap_storagefile_read 32 log_store
       (snd (jswrap_storagefile_erase log_store (log_handle CHR ''r'' 5))) 10 =
     Some (\<lparr>sf_name = str ''log'', sf_chunk = 1, sf_offset = 0, sf_addr = 0, sf_mode = 0\<rparr>,
           Inl CantRead) \<and>
   jswrap_storagefile_write no_room 32 log_store
       (snd (jswrap_storagefile_erase log_store (log_handle CHR ''r'' 5))) (str ''abc'') =
     (log_store, \<lparr>sf_name = str ''log'', sf_chunk = 1, sf_offset = 0, sf_addr = 0, sf_mode = 0\<rparr>,
      Some CantWrite)"
proof -
  have "files (fst (jswrap_storagefile_erase log_store (log_handle CHR ''r'' 5))) = []"
    by code_simp
  moreover have "snd (jswrap_storagefile_erase log_store (log_handle CHR ''r'' 5)) =
      \<lparr>sf_name = str ''log'', sf_chunk = 1, sf_offset = 0, sf_addr = 0, sf_mode = 0\<rparr>"
    by (simp add: jswrap_storagefile_erase_def Let_def log_handle_def)
  ultimately show ?thesis
    using erased_handle_wrong_mode [of log_store "log_handle CHR ''r'' 5" 32 log_store 10
        no_room "str ''abc''"]
    by simp
qed

section \<open>StorageFile.write: the split over two chunks\<close>

lemma set_chunk_twice: "set_chunk (set_chunk fname i c) i c' = set_chunk fname i c'"
  by (simp add: set_chunk_def)

subsection \<open>The offset of a handle\<close>

text \<open>
  \<open>Storage.open\<close> builds a handle whose offset is inside the chunk, between 0 and \<open>cs\<close>.
\<close>

lemma first_ff_less: "first_ff buf = Some i \<Longrightarrow> i < length buf"
  by (induction buf arbitrary: i) (auto split: if_splits)

lemma append_scan_bounds:
  "0 \<le> offset \<Longrightarrow> offset \<le> int cs \<Longrightarrow>
   0 \<le> append_scan cs st addr offset \<and> append_scan cs st addr offset \<le> int cs"
proof (induction cs st addr offset rule: append_scan.induct)
  case (1 cs st addr offset)
  show ?case
  proof (cases "int cs - offset \<le> 0")
    case True
    with 1 show ?thesis by (simp add: append_scan.simps)
  next
    case False
    define l' where "l' = (if int cs - offset > 64 then 64 else nat (int cs - offset))"
    have l: "int l' \<le> int cs - offset" using False by (simp add: l'_def)
    show ?thesis
    proof (cases "first_ff (jshFlashRead st (addr + word_of_int offset) l')")
      case None
      have "0 \<le> append_scan cs st addr (offset + int l') \<and>
            append_scan cs st addr (offset + int l') \<le> int cs"
        using 1 False None l by (intro "1.IH" [OF refl _ l'_def refl]) auto
      then show ?thesis
        using False None by (subst (1 2) append_scan.simps) (simp add: Let_def l'_def)
    next
      case (Some i)
      have "i < l'"
        using first_ff_less [OF Some] by (simp add: jshFlashRead_def)
      then show ?thesis
        using False Some l "1.prems"
        by (subst (1 2) append_scan.simps) (simp add: Let_def l'_def [symmetric])
    qed
  qed
qed

lemma open_offset_bounds:
  assumes "jswrap_storage_open cs st name modeVar = (st', Inr f)"
  shows "0 \<le> sf_offset f \<and> sf_offset f \<le> int cs"
proof -
  have "0 \<le> append_scan cs s a 0 \<and> append_scan cs s a 0 \<le> int cs" for s a
    by (rule append_scan_bounds) simp_all
  then show ?thesis
    using assms
    by (auto simp: jswrap_storage_open_def Let_def split: if_splits prod.splits)
qed

text \<open>
  \<open>write\<close> never makes the offset negative, whatever \<open>jsfWriteFile\<close> does, and it keeps the
  offset inside the chunk when the data is at most a chunk long.
\<close>

lemma write_offset_nonneg:
  assumes "jswrap_storagefile_write jsfWriteFile cs st f data = (st', f', e)"
    and "0 \<le> sf_offset f"
  shows "0 \<le> sf_offset f'"
  using assms
  by (auto simp: jswrap_storagefile_write_def Let_def split: if_splits prod.splits bool.splits)

lemma write_offset_bounds:
  assumes "jswrap_storagefile_write jsfWriteFile cs st f data = (st', f', e)"
    and "0 \<le> sf_offset f" and "sf_offset f \<le> int cs" and "cs < 2 ^ 31"
    and "length data \<le> cs"
  shows "0 \<le> sf_offset f' \<and> sf_offset f' \<le> int cs"
proof -
  have m: "(int cs - sf_offset f) mod 4294967296 = int cs - sf_offset f"
    using assms(2,3,4) by simp
  show ?thesis
    using assms
    by (auto simp: jswrap_storagefile_write_def Let_def m
        split: if_splits prod.splits bool.splits)
qed

text \<open>
  Data longer than a chunk takes the offset beyond the chunk: the first write of a stream
  calls \<open>jsfWriteFile\<close> with all of the data and sets \<open>offset = len\<close>. With chunks of 32
  bytes, the write of 40 bytes to the fresh stream \<open>log\<close> leaves the handle at offset 40
  of chunk 1.
\<close>

lemma write_first_chunk_beyond:
  "(case jswrap_storage_open 32 empty_store (str ''log'') (str ''w'') of
      (st, Inr f) \<Rightarrow>
        snd (jswrap_storagefile_write (jsfWriteFile_at 4096) 32 st f (replicate 40 (ch CHR ''x'')))
          = (log_handle CHR ''w'' 40, None)
    | (st, Inl e) \<Rightarrow> False)"
  by code_simp

subsection \<open>The split\<close>

text \<open>
  Two calls in which the length of the data reaches what remains in the chunk, and \<open>write\<close>
  does not split. In the first the handle is at the end of its chunk (offset 32 of 32) and
  the data is the empty string: \<open>write\<close> returns at once, by the guard \<open>if (len==0) return\<close>;
  the chunk index stays 1 and nothing is allocated. In the second the handle is the one
  that the write of 40 bytes above leaves, at offset 40 of 32, on the store of that write,
  and the data has two bytes: \<open>remaining\<close> is -8, which \<open>len<remaining\<close> compares as an
  unsigned number; \<open>write\<close> programs the two bytes at \<open>addr+40\<close>, beyond the chunk, the
  chunk index stays 1 and nothing is allocated.
\<close>

theorem write_split_counterexample:
  "sf_addr (log_handle CHR ''w'' 32) \<noteq> 0 \<and>
   32 - sf_offset (log_handle CHR ''w'' 32) \<le> int (length ([] :: bytes)) \<and>
   jswrap_storagefile_write (jsfWriteFile_at 8192) 32 log_store (log_handle CHR ''w'' 32) [] =
     (log_store, log_handle CHR ''w'' 32, None) \<and>
   sf_addr (log_handle CHR ''w'' 40) \<noteq> 0 \<and>
   32 - sf_offset (log_handle CHR ''w'' 40) \<le> int (length (str ''ab'')) \<and>
   jswrap_storagefile_write (jsfWriteFile_at 8192) 32 long_store (log_handle CHR ''w'' 40)
       (str ''ab'') =
     (jswrap_flash_write long_store (str ''ab'') (4096 + 40), log_handle CHR ''w'' 42, None)"
  by (simp add: jswrap_storagefile_write_def log_handle_def str_def)

text \<open>
  C5, as amended. For a handle in mode \<open>w\<close> or \<open>a\<close> with an allocated chunk: with empty
  data \<open>write\<close> returns at once, the store and the handle as they were. With data that is
  not empty, an offset inside the chunk (\<open>0 \<le> offset \<le> cs\<close>) and data at least as long as
  what remains in the chunk, \<open>write\<close> programs the first \<open>remaining\<close> bytes at
  \<open>addr+offset\<close>; then, when the chunk index is 255, it raises the file too big error and
  leaves the handle as it is; otherwise it sets the chunk index to the next one and calls
  \<open>jsfWriteFile\<close> for the name of that chunk with the rest of the data, offset 0 and size
  \<open>cs\<close>, and on success the offset is the length of the rest and the address is that of the
  new chunk. The offset is never negative, and it is inside the chunk as long as no write
  was longer than a chunk (the lemmas above). An offset beyond the chunk is left out of the
  statement: there \<open>remaining\<close> is negative and the comparison with \<open>len\<close> is unsigned, as
  in the second call above. \<open>cs\<close> is a C \<open>int\<close>.
\<close>

theorem write_split:
  assumes "sf_mode f = ch CHR ''w'' \<or> sf_mode f = ch CHR ''a''"
    and "sf_addr f \<noteq> 0"
    and "cs < 2 ^ 31"
  shows "jswrap_storagefile_write jsfWriteFile cs st f [] = (st, f, None) \<and>
    (data \<noteq> [] \<and> 0 \<le> sf_offset f \<and> sf_offset f \<le> int cs \<and>
     int cs - sf_offset f \<le> int (length data) \<longrightarrow>
     jswrap_storagefile_write jsfWriteFile cs st f data =
     (let remaining = nat (int cs - sf_offset f);
          st1 = jswrap_flash_write st (take remaining data) (sf_addr f + word_of_int (sf_offset f));
          fname0 = jsfNameFromVar (sf_name f);
          fname' = set_chunk fname0 (fnamei_loop fname0 7) (sf_chunk f + 1);
          f1 = f\<lparr>sf_chunk := sf_chunk f + 1\<rparr>
      in if sf_chunk f = 255 then (st1, f, Some FileTooBig)
         else case jsfWriteFile st1 fname' (drop remaining data) JSFF_NONE 0 (int cs) of
                (True, st2) \<Rightarrow>
                  (st2, f1\<lparr>sf_offset := int (length data) - int remaining,
                          sf_addr := fst (jsfFindFile st2 fname')\<rparr>, None)
              | (False, st2) \<Rightarrow> (st2, f1, Some JsfWriteFailed)))"
proof (intro conjI impI)
  show "jswrap_storagefile_write jsfWriteFile cs st f [] = (st, f, None)"
    using assms(1) by (auto simp: jswrap_storagefile_write_def)
next
  assume h: "data \<noteq> [] \<and> 0 \<le> sf_offset f \<and> sf_offset f \<le> int cs \<and>
     int cs - sf_offset f \<le> int (length data)"
  have ne: "data \<noteq> []" and o0: "0 \<le> sf_offset f" and o1: "sf_offset f \<le> int cs"
    and ge: "int cs - sf_offset f \<le> int (length data)"
    using h by blast+
  have m: "(int cs - sf_offset f) mod 4294967296 = int cs - sf_offset f"
    using o0 o1 assms(3) by simp
  have nlt: "\<not> int (length data) < int cs - sf_offset f"
    using ge by simp
  have len: "int (length data - nat (int cs - sf_offset f)) =
      int (length data) - int (nat (int cs - sf_offset f))"
    using o1 ge by simp
  show "jswrap_storagefile_write jsfWriteFile cs st f data =
     (let remaining = nat (int cs - sf_offset f);
          st1 = jswrap_flash_write st (take remaining data) (sf_addr f + word_of_int (sf_offset f));
          fname0 = jsfNameFromVar (sf_name f);
          fname' = set_chunk fname0 (fnamei_loop fname0 7) (sf_chunk f + 1);
          f1 = f\<lparr>sf_chunk := sf_chunk f + 1\<rparr>
      in if sf_chunk f = 255 then (st1, f, Some FileTooBig)
         else case jsfWriteFile st1 fname' (drop remaining data) JSFF_NONE 0 (int cs) of
                (True, st2) \<Rightarrow>
                  (st2, f1\<lparr>sf_offset := int (length data) - int remaining,
                          sf_addr := fst (jsfFindFile st2 fname')\<rparr>, None)
              | (False, st2) \<Rightarrow> (st2, f1, Some JsfWriteFailed))"
    using assms(1,2) ne nlt
    by (auto simp: jswrap_storagefile_write_def Let_def m set_chunk_twice len
        simp del: of_nat_diff split: prod.splits bool.splits)
qed

text \<open>
  On the store that holds chunk 1 of \<open>log\<close>, with chunks of 32 bytes and the handle at
  offset 30: the empty string changes nothing; the five bytes \<open>abcde\<close> put \<open>ab\<close> at the end
  of chunk 1 and \<open>cde\<close> at the start of the new chunk 2, and the handle is at offset 3 of
  chunk 2; when the handle is on chunk 255, \<open>ab\<close> is written, the file too big error is
  raised and no chunk is allocated.
\<close>

theorem write_split_witness:
  "jswrap_storagefile_write (jsfWriteFile_at 8192) 32 log_store (log_handle CHR ''a'' 30) [] =
     (log_store, log_handle CHR ''a'' 30, None) \<and>
   (let (st', f', e) = jswrap_storagefile_write (jsfWriteFile_at 8192) 32 log_store
                         (log_handle CHR ''a'' 30) (str ''abcde'')
    in e = None \<and> sf_chunk f' = 2 \<and> sf_offset f' = 3 \<and> sf_addr f' = 8192 \<and>
       jshFlashRead st' (4096 + 30) 2 = str ''ab'' \<and>
       jshFlashRead st' 8192 4 = str ''cde'' @ [255]) \<and>
   (let (st', f', e) = jswrap_storagefile_write (jsfWriteFile_at 8192) 32 log_store
                         ((log_handle CHR ''w'' 30)\<lparr>sf_chunk := 255\<rparr>) (str ''abcde'')
    in e = Some FileTooBig \<and> sf_chunk f' = 255 \<and> sf_offset f' = 30 \<and> sf_addr f' = 4096 \<and>
       jshFlashRead st' (4096 + 30) 2 = str ''ab'' \<and> length (files st') = 1)"
proof -
  let ?fa = "log_handle CHR ''a'' 30"
  let ?fb = "(log_handle CHR ''w'' 30)\<lparr>sf_chunk := 255\<rparr>"
  let ?d = "str ''abcde''"
  note a = write_split [where cs = 32 and f = ?fa and data = ?d and st = log_store
      and jsfWriteFile = "jsfWriteFile_at 8192"]
  note b = write_split [where cs = 32 and f = ?fb and data = ?d and st = log_store
      and jsfWriteFile = "jsfWriteFile_at 8192"]
  have ha: "sf_mode ?fa = ch CHR ''w'' \<or> sf_mode ?fa = ch CHR ''a''" "sf_addr ?fa \<noteq> 0"
    "(32::nat) < 2 ^ 31"
    by (simp_all add: log_handle_def)
  have ha': "?d \<noteq> [] \<and> 0 \<le> sf_offset ?fa \<and> sf_offset ?fa \<le> int 32 \<and>
    int 32 - sf_offset ?fa \<le> int (length ?d)"
    by (simp add: log_handle_def str_def)
  have hb: "sf_mode ?fb = ch CHR ''w'' \<or> sf_mode ?fb = ch CHR ''a''" "sf_addr ?fb \<noteq> 0"
    "(32::nat) < 2 ^ 31"
    by (simp_all add: log_handle_def)
  have hb': "?d \<noteq> [] \<and> 0 \<le> sf_offset ?fb \<and> sf_offset ?fb \<le> int 32 \<and>
    int 32 - sf_offset ?fb \<le> int (length ?d)"
    by (simp add: log_handle_def str_def)
  note a0 = a [OF ha, THEN conjunct1]
  note a1 = a [OF ha, THEN conjunct2, rule_format, OF ha']
  note b1 = b [OF hb, THEN conjunct2, rule_format, OF hb']
  have c1: "(let (st', f', e) = jswrap_storagefile_write (jsfWriteFile_at 8192) 32 log_store
                         (log_handle CHR ''a'' 30) (str ''abcde'')
    in e = None \<and> sf_chunk f' = 2 \<and> sf_offset f' = 3 \<and> sf_addr f' = 8192 \<and>
       jshFlashRead st' (4096 + 30) 2 = str ''ab'' \<and>
       jshFlashRead st' 8192 4 = str ''cde'' @ [255])"
    unfolding a1 by code_simp
  have c2: "(let (st', f', e) = jswrap_storagefile_write (jsfWriteFile_at 8192) 32 log_store
                         ((log_handle CHR ''w'' 30)\<lparr>sf_chunk := 255\<rparr>) (str ''abcde'')
    in e = Some FileTooBig \<and> sf_chunk f' = 255 \<and> sf_offset f' = 30 \<and> sf_addr f' = 4096 \<and>
       jshFlashRead st' (4096 + 30) 2 = str ''ab'' \<and> length (files st') = 1)"
    unfolding b1 by code_simp
  show ?thesis
    using a0 c1 c2 by (intro conjI)
qed

section \<open>Storage.open in append mode\<close>

subsection \<open>Reading the flash\<close>

lemma hd_jshFlashRead: "hd (jshFlashRead st a (Suc 0)) = flash st a"
  by (simp add: jshFlashRead_def)

lemma length_jshFlashRead: "length (jshFlashRead st a l) = l"
  by (simp add: jshFlashRead_def)

lemma nth_jshFlashRead: "i < l \<Longrightarrow> jshFlashRead st a l ! i = flash st (a + of_nat i)"
  by (simp add: jshFlashRead_def)

lemma jshFlashRead_part:
  "off + l \<le> m \<Longrightarrow> jshFlashRead st (a + of_nat off) l = take l (drop off (jshFlashRead st a m))"
  by (rule nth_equalityI) (simp_all add: length_jshFlashRead nth_jshFlashRead add.assoc)

lemma first_ff_eq:
  "first_ff buf = (if 255 \<in> set buf then Some (length (takeWhile (\<lambda>b. b \<noteq> 255) buf)) else None)"
  by (induction buf) auto

lemma append_scan_eq:
  "off \<le> cs \<Longrightarrow>
   append_scan cs st a (int off) =
     int (off + length (takeWhile (\<lambda>b. b \<noteq> 255) (drop off (jshFlashRead st a cs))))"
proof (induction "cs - off" arbitrary: off rule: less_induct)
  case less
  let ?P = "\<lambda>b::u8. b \<noteq> 255"
  let ?C = "jshFlashRead st a cs"
  show ?case
  proof (cases "off = cs")
    case True
    then show ?thesis
      by (subst append_scan.simps) (simp add: length_jshFlashRead)
  next
    case False
    with less.prems have lt: "off < cs" by simp
    define l where "l = (if int cs - int off > 64 then 64 else nat (int cs - int off))"
    have l: "0 < l" "off + l \<le> cs"
      using lt by (auto simp: l_def)
    let ?D = "drop off ?C"
    have buf: "jshFlashRead st (a + of_nat off) l = take l ?D"
      using jshFlashRead_part [OF l(2), of st a] by simp
    have lenD: "length (take l ?D) = l"
      using l by (simp add: length_jshFlashRead)
    show ?thesis
    proof (cases "255 \<in> set (take l ?D)")
      case True
      then have "\<exists>x\<in>set (take l ?D). \<not> ?P x" by auto
      then have "takeWhile ?P (take l ?D @ drop l ?D) = takeWhile ?P (take l ?D)"
        by (metis (mono_tags, lifting) takeWhile_append1)
      then have tw: "takeWhile ?P ?D = takeWhile ?P (take l ?D)"
        by (simp only: append_take_drop_id)
      show ?thesis
        using lt True
        by (subst append_scan.simps) (simp add: Let_def l_def [symmetric] buf first_ff_eq tw)
    next
      case False
      then have "takeWhile ?P (take l ?D @ drop l ?D) = take l ?D @ takeWhile ?P (drop l ?D)"
        by (intro takeWhile_append2) auto
      then have "takeWhile ?P ?D = take l ?D @ takeWhile ?P (drop l ?D)"
        by (simp only: append_take_drop_id)
      then have tw: "length (takeWhile ?P ?D) = l + length (takeWhile ?P (drop (off + l) ?C))"
        using lenD by (simp add: ac_simps)
      have ih: "append_scan cs st a (int off + int l) =
          int (off + l + length (takeWhile ?P (drop (off + l) ?C)))"
        using less.hyps [of "off + l"] l lt by simp
      show ?thesis
        using lt False ih
        by (subst append_scan.simps) (simp add: Let_def l_def [symmetric] buf first_ff_eq tw)
    qed
  qed
qed

subsection \<open>The walk over the chunks\<close>

lemma set_chunk_chunk_name:
  "set_chunk (chunk_name name c) (fnamei_loop (jsfNameFromVar name) 7) c' = chunk_name name c'"
  by (simp add: chunk_name_def Let_def set_chunk_twice)

lemma chunks_sizedD:
  assumes "chunks_sized cs st name" "1 \<le> k" "k \<le> 255"
    and "jsfFindFile st (chunk_name name k) = (a, h)" "a \<noteq> 0"
  shows "jsfGetFileSize h = of_nat cs"
proof -
  have "k \<in> set [1..255]" using assms(2,3) by simp
  with assms(1) have "case jsfFindFile st (chunk_name name k) of
      (addr, header) \<Rightarrow> addr = 0 \<or> jsfGetFileSize header = of_nat cs"
    unfolding chunks_sized_def list_all_iff by (rule bspec)
  with assms(4,5) show ?thesis by simp
qed

lemma erased_tail_last:
  fixes C :: bytes
  assumes "list_all (\<lambda>b. b = 255) (dropWhile (\<lambda>b. b \<noteq> 255) (C @ R))"
    and "C \<noteq> []" and "last C \<noteq> 255"
  shows "255 \<notin> set C"
proof
  let ?P = "\<lambda>b::u8. b \<noteq> 255"
  assume "255 \<in> set C"
  then have ex: "\<exists>x\<in>set C. \<not> ?P x" by auto
  then have "dropWhile ?P (C @ R) = dropWhile ?P C @ R"
    by (metis (mono_tags, lifting) dropWhile_append1)
  with assms(1) have all: "list_all (\<lambda>b. b = 255) (dropWhile ?P C)"
    by simp
  from ex have ne: "dropWhile ?P C \<noteq> []"
    by (simp add: dropWhile_eq_Nil_conv)
  have e: "last (dropWhile ?P C) = last C"
    using ne last_appendR [of "dropWhile ?P C" "takeWhile ?P C"] by simp
  have "last (dropWhile ?P C) \<in> set (dropWhile ?P C)"
    using ne by (rule last_in_set)
  then have "last C \<in> set (dropWhile ?P C)"
    unfolding e .
  then have "last C = 255" using all unfolding list_all_iff by blast
  with assms(3) show False by simp
qed

lemma last_jshFlashRead: "0 < cs \<Longrightarrow> last (jshFlashRead st a cs) = flash st (a + of_nat cs - 1)"
proof -
  assume cs: "0 < cs"
  then have "jshFlashRead st a cs \<noteq> []"
    using length_jshFlashRead [of st a cs] by auto
  then have "last (jshFlashRead st a cs) = jshFlashRead st a cs ! (cs - 1)"
    by (simp add: last_conv_nth length_jshFlashRead)
  also have "\<dots> = flash st (a + of_nat (cs - 1))"
    using cs by (simp add: nth_jshFlashRead)
  also have "of_nat (cs - 1) = (of_nat cs - 1 :: u32)"
    using cs by (simp add: of_nat_diff)
  finally show ?thesis by (simp add: algebra_simps)
qed

lemma length_takeWhile_lt: "\<exists>x\<in>set xs. \<not> P x \<Longrightarrow> length (takeWhile P xs) < length xs"
  by (induction xs) auto

lemma append_walk_scan:
  fixes k :: int
  assumes "0 < cs" and "chunks_sized cs st name"
    and "1 \<le> k" and "k \<le> 255"
    and "list_all (\<lambda>b. b = 255) (dropWhile (\<lambda>b. b \<noteq> 255) (stream_from_chunk cs st name k))"
    and "addr = fst (jsfFindFile st (chunk_name name k))"
    and "addr \<noteq> 0 \<Longrightarrow> lastCh = flash st (addr + of_nat cs - 1)"
    and "n = length (takeWhile (\<lambda>b. b \<noteq> 255) (stream_from_chunk cs st name k))"
  shows "case append_walk st (chunk_name name k) (fnamei_loop (jsfNameFromVar name) 7)
               k addr lastCh of
           (chunk', addr') \<Rightarrow>
             addr' = fst (jsfFindFile st (chunk_name name chunk')) \<and>
             (if n < nat (256 - k) * cs
              then chunk' = k + int (n div cs) \<and>
                   (if addr' \<noteq> 0 then append_scan cs st addr' 0 else 0) = int (n mod cs)
              else chunk' = 255 \<and> addr' \<noteq> 0 \<and> append_scan cs st addr' 0 = int cs)"
  using assms(3-)
proof (induction "nat (255 - k)" arbitrary: k addr lastCh n rule: less_induct)
  case less
  let ?P = "\<lambda>b::u8. b \<noteq> 255"
  let ?S = "stream_from_chunk cs st name"
  let ?fi = "fnamei_loop (jsfNameFromVar name) 7"
  note cs = assms(1)
  show ?case
  proof (cases "addr = 0")
    case True
    then have "?S k = []"
      using less.prems(1,2,4) by (subst stream_from_chunk.simps) simp
    then have n: "n = 0" using less.prems(6) by simp
    have w: "append_walk st (chunk_name name k) ?fi k addr lastCh = (k, addr)"
      using True by (subst append_walk.simps) simp
    show ?thesis
      using True n cs less.prems(2,4) w by simp
  next
    case False
    let ?C = "jshFlashRead st addr cs"
    have S: "?S k = ?C @ ?S (k + 1)"
      using False less.prems(1,2,4) by (subst stream_from_chunk.simps) (simp add: Let_def)
    have Cne: "?C \<noteq> []" using cs length_jshFlashRead [of st addr cs] by auto
    have lastC: "last ?C = lastCh"
      using less.prems(5) [OF False] cs by (simp add: last_jshFlashRead)
    have scan0: "append_scan cs st addr 0 = int (length (takeWhile ?P ?C))"
      using append_scan_eq [of 0 cs st addr] by simp
    show ?thesis
    proof (cases "lastCh = 255")
      case True
      have w: "append_walk st (chunk_name name k) ?fi k addr lastCh = (k, addr)"
        using True by (subst append_walk.simps) simp
      from True lastC Cne have "255 \<in> set ?C"
        by (metis last_in_set)
      then have ex: "\<exists>x\<in>set ?C. \<not> ?P x" by auto
      then have "takeWhile ?P (?C @ ?S (k + 1)) = takeWhile ?P ?C"
        by (metis (mono_tags, lifting) takeWhile_append1)
      then have n: "n = length (takeWhile ?P ?C)"
        using less.prems(6) S by simp
      have "length (takeWhile ?P ?C) < length ?C"
        using ex by (rule length_takeWhile_lt)
      then have nlt: "n < cs" using n by (simp add: length_jshFlashRead)
      have "1 \<le> nat (256 - k)" using less.prems(2) by arith
      then have "1 * cs \<le> nat (256 - k) * cs" by (rule mult_le_mono1)
      with nlt have "n < nat (256 - k) * cs" by (simp only: mult_1 less_le_trans)
      then show ?thesis
        using False nlt n scan0 less.prems(4) w by simp
    next
      case False
      note ff = this
      have noff: "255 \<notin> set ?C"
        using erased_tail_last [of ?C "?S (k + 1)"] less.prems(3) S Cne lastC ff by simp
      then have all: "\<And>x. x \<in> set ?C \<Longrightarrow> ?P x" by auto
      have tw: "takeWhile ?P (?S k) = ?C @ takeWhile ?P (?S (k + 1))"
        unfolding S using all by (rule takeWhile_append2)
      have dw: "dropWhile ?P (?S k) = dropWhile ?P (?S (k + 1))"
        unfolding S using all by (rule dropWhile_append2)
      have twC: "takeWhile ?P ?C = ?C"
        using all by (simp add: takeWhile_eq_all_conv)
      define n' where "n' = length (takeWhile ?P (?S (k + 1)))"
      have n: "n = cs + n'"
        using less.prems(6) tw by (simp add: n'_def length_jshFlashRead)
      show ?thesis
      proof (cases "k = 255")
        case True
        have w: "append_walk st (chunk_name name k) ?fi k addr lastCh = (k, addr)"
          using True by (subst append_walk.simps) simp
        have "?S (k + 1) = []"
          using True by (subst stream_from_chunk.simps) simp
        then have "n = cs" using n by (simp add: n'_def)
        moreover have "append_scan cs st addr 0 = int cs"
          using scan0 twC by (simp add: length_jshFlashRead)
        ultimately show ?thesis
          using True \<open>addr \<noteq> 0\<close> less.prems(4) w by simp
      next
        case False
        then have k: "k < 255" using less.prems(2) by simp
        obtain addr' header' where f: "jsfFindFile st (chunk_name name (k + 1)) = (addr', header')"
          by (metis surj_pair)
        define lastCh' where "lastCh' = (if addr' \<noteq> 0
               then hd (jshFlashRead st (addr' + jsfGetFileSize header' - 1) 1) else lastCh)"
        have w: "append_walk st (chunk_name name k) ?fi k addr lastCh =
            append_walk st (chunk_name name (k + 1)) ?fi (k + 1) addr' lastCh'"
          using \<open>addr \<noteq> 0\<close> ff k f
          by (subst append_walk.simps)
            (simp add: Let_def set_chunk_chunk_name lastCh'_def)
        have l': "addr' \<noteq> 0 \<Longrightarrow> lastCh' = flash st (addr' + of_nat cs - 1)"
          using chunks_sizedD [OF assms(2) _ _ f] k less.prems(1)
          by (simp add: lastCh'_def hd_jshFlashRead)
        have ih: "case append_walk st (chunk_name name (k + 1)) ?fi (k + 1) addr' lastCh' of
           (chunk', addr'') \<Rightarrow>
             addr'' = fst (jsfFindFile st (chunk_name name chunk')) \<and>
             (if n' < nat (256 - (k + 1)) * cs
              then chunk' = (k + 1) + int (n' div cs) \<and>
                   (if addr'' \<noteq> 0 then append_scan cs st addr'' 0 else 0) = int (n' mod cs)
              else chunk' = 255 \<and> addr'' \<noteq> 0 \<and> append_scan cs st addr'' 0 = int cs)"
        proof (rule less.hyps)
          show "nat (255 - (k + 1)) < nat (255 - k)" using k by simp
          show "1 \<le> k + 1" using less.prems(1) by simp
          show "k + 1 \<le> 255" using k by simp
          show "list_all (\<lambda>b. b = 255) (dropWhile ?P (?S (k + 1)))"
            using less.prems(3) dw by simp
          show "addr' = fst (jsfFindFile st (chunk_name name (k + 1)))"
            using f by simp
          show "addr' \<noteq> 0 \<Longrightarrow> lastCh' = flash st (addr' + of_nat cs - 1)"
            by (rule l')
          show "n' = length (takeWhile ?P (?S (k + 1)))"
            by (simp add: n'_def)
        qed
        have iff: "n < nat (256 - k) * cs \<longleftrightarrow> n' < nat (256 - (k + 1)) * cs"
        proof -
          have "nat (256 - k) = Suc (nat (256 - (k + 1)))"
            using k by arith
          then have "nat (256 - k) * cs = cs + nat (256 - (k + 1)) * cs"
            by (simp only: mult_Suc)
          then show ?thesis using n by simp
        qed
        have dm: "n div cs = Suc (n' div cs)" "n mod cs = n' mod cs"
          using cs unfolding n by (simp_all add: div_add_self1)
        obtain chunk' addr'' where r:
          "append_walk st (chunk_name name (k + 1)) ?fi (k + 1) addr' lastCh' =
             (chunk', addr'')"
          by (metis surj_pair)
        note ab = ih [unfolded r prod.case]
        note a = ab [THEN conjunct1] and b = ab [THEN conjunct2]
        show ?thesis
        proof (cases "n' < nat (256 - (k + 1)) * cs")
          case True
          with b have "chunk' = (k + 1) + int (n' div cs)"
            "(if addr'' \<noteq> 0 then append_scan cs st addr'' 0 else 0) = int (n' mod cs)"
            by simp_all
          moreover from True iff have "n < nat (256 - k) * cs" by simp
          ultimately show ?thesis
            unfolding w r using a by (auto simp: dm)
        next
          case False
          with b have "chunk' = 255" "addr'' \<noteq> 0" "append_scan cs st addr'' 0 = int cs"
            by simp_all
          moreover from False iff have "\<not> n < nat (256 - k) * cs" by simp
          ultimately show ?thesis
            unfolding w r using a by auto
        qed
      qed
    qed
  qed
qed

lemma jsfNameFromVar_take: "jsfNameFromVar (take 8 name) = jsfNameFromVar name"
  by (simp add: jsfNameFromVar_def min_def)

lemma chunk_name_unfold:
  "chunk_name name c = set_chunk (jsfNameFromVar name) (fnamei_loop (jsfNameFromVar name) 7) c"
  by (simp add: chunk_name_def Let_def)

lemma data_then_erased:
  fixes d :: bytes
  assumes "255 \<notin> set d"
  shows "takeWhile (\<lambda>b. b \<noteq> 255) (d @ replicate r 255) = d"
    and "dropWhile (\<lambda>b. b \<noteq> 255) (d @ replicate r 255) = replicate r 255"
    and "data_count (d @ replicate r 255) = length d"
proof -
  let ?P = "\<lambda>b::u8. b \<noteq> 255"
  have all: "\<And>x. x \<in> set d \<Longrightarrow> ?P x" using assms by auto
  have r: "takeWhile ?P (replicate r 255) = []" "dropWhile ?P (replicate r 255) = replicate r 255"
    by (cases r; simp)+
  show "takeWhile ?P (d @ replicate r 255) = d"
    using takeWhile_append2 [of d ?P "replicate r 255", OF all] r by simp
  show "dropWhile ?P (d @ replicate r 255) = replicate r 255"
    using dropWhile_append2 [of d ?P "replicate r 255", OF all] r by simp
  have "filter ?P d = d" using all by (simp add: filter_id_conv)
  then show "data_count (d @ replicate r 255) = length d"
    by (simp add: data_count_def)
qed

lemma open_append_eq:
  assumes "0 < cs" and "chunks_sized cs st name"
    and "stream_from_chunk cs st name 1 = d @ replicate r 255" and "255 \<notin> set d"
  shows "\<exists>f. jswrap_storage_open cs st name (str ''a'') = (st, Inr f) \<and>
           sf_addr f = fst (jsfFindFile st (chunk_name name (sf_chunk f))) \<and>
           (if length d < 255 * cs
            then sf_chunk f = int (length d div cs) + 1 \<and> sf_offset f = int (length d mod cs)
            else sf_chunk f = 255 \<and> sf_offset f = int cs)"
proof -
  let ?P = "\<lambda>b::u8. b \<noteq> 255"
  let ?S = "stream_from_chunk cs st name 1"
  let ?fi = "fnamei_loop (jsfNameFromVar name) 7"
  define n where "n = length d"
  have n: "n = length (takeWhile ?P ?S)"
    unfolding n_def assms(3) using data_then_erased [OF assms(4), of r] by simp
  have tail: "list_all (\<lambda>b. b = 255) (dropWhile ?P ?S)"
    unfolding assms(3) using data_then_erased(2) [OF assms(4), of r] by (simp add: list_all_iff)
  obtain addr header where f: "jsfFindFile st (chunk_name name 1) = (addr, header)"
    by (metis surj_pair)
  define lastCh where "lastCh = (if addr \<noteq> 0
      then hd (jshFlashRead st (addr + jsfGetFileSize header - 1) 1) else 255)"
  have l: "addr \<noteq> 0 \<Longrightarrow> lastCh = flash st (addr + of_nat cs - 1)"
    using chunks_sizedD [OF assms(2), of 1 addr header] f
    by (simp add: lastCh_def hd_jshFlashRead)
  obtain chunk' addr' where w:
    "append_walk st (chunk_name name 1) ?fi 1 addr lastCh = (chunk', addr')"
    by (metis surj_pair)
  have "case append_walk st (chunk_name name 1) ?fi 1 addr lastCh of
           (chunk', addr') \<Rightarrow>
             addr' = fst (jsfFindFile st (chunk_name name chunk')) \<and>
             (if n < nat (256 - 1) * cs
              then chunk' = 1 + int (n div cs) \<and>
                   (if addr' \<noteq> 0 then append_scan cs st addr' 0 else 0) = int (n mod cs)
              else chunk' = 255 \<and> addr' \<noteq> 0 \<and> append_scan cs st addr' 0 = int cs)"
    using assms(1,2) _ _ tail _ l n
    by (rule append_walk_scan) (simp_all add: f)
  note ab = this [unfolded w prod.case]
  have ws1: "addr' = fst (jsfFindFile st (chunk_name name chunk'))"
    using ab by (rule conjunct1)
  have ws2: "if n < 255 * cs
     then chunk' = int (n div cs) + 1 \<and>
          (if addr' \<noteq> 0 then append_scan cs st addr' 0 else 0) = int (n mod cs)
     else chunk' = 255 \<and> addr' \<noteq> 0 \<and> append_scan cs st addr' 0 = int cs"
    using ab [THEN conjunct2] by (simp split: if_splits)
  have o: "jswrap_storage_open cs st name (str ''a'') =
      (st, Inr \<lparr>sf_name = take 8 name, sf_chunk = chunk',
                 sf_offset = (if addr' \<noteq> 0 then append_scan cs st addr' 0 else 0),
                 sf_addr = addr', sf_mode = ch CHR ''a''\<rparr>)"
    using f w unfolding chunk_name_unfold lastCh_def
    by (simp add: jswrap_storage_open_def str_def Let_def jsfNameFromVar_take)
  show ?thesis
  proof (cases "n < 255 * cs")
    case True
    with ws2 have "chunk' = int (n div cs) + 1"
      "(if addr' \<noteq> 0 then append_scan cs st addr' 0 else 0) = int (n mod cs)"
      by simp_all
    with True ws1 show ?thesis
      unfolding o n_def [symmetric] by simp
  next
    case False
    with ws2 have "chunk' = 255" "addr' \<noteq> 0" "append_scan cs st addr' 0 = int cs"
      by simp_all
    with False ws1 show ?thesis
      unfolding o n_def [symmetric] by simp
  qed
qed

subsection \<open>The stream of 255 full chunks\<close>

lemma map_of_map_key:
  "inj_on g (set xs) \<Longrightarrow> j \<in> set xs \<Longrightarrow> map_of (map (\<lambda>i. (g i, v i)) xs) (g j) = Some (v j)"
  by (induction xs) (auto simp: inj_on_def)

lemma log_name: "chunk_name (str ''log'') k = str ''log'' @ [word_of_int k, 0, 0, 0, 0]"
proof -
  have "fnamei_loop (jsfNameFromVar (str ''log'')) 7 = 3"
    by code_simp
  moreover have "jsfNameFromVar (str ''log'') = [108, 111, 103, 0, 0, 0, 0, 0]"
    by code_simp
  ultimately show ?thesis
    by (simp add: chunk_name_def set_chunk_def str_def)
qed

lemma u8_of_nat_inj:
  fixes i j :: nat
  assumes "i < 256" "j < 256" "(of_nat i :: u8) = of_nat j"
  shows "i = j"
proof -
  have "take_bit 8 i = take_bit 8 j"
    using assms(3) by (simp add: word_of_nat_eq_iff)
  then show ?thesis
    using assms(1,2) by (simp add: take_bit_nat_eq_self)
qed

lemma full_store_find:
  assumes "1 \<le> k" "k \<le> 255"
  shows "jsfFindFile full_store (chunk_name (str ''log'') k) =
           (4096 + 32 * word_of_int k, \<lparr>hdr_size = 32, hdr_flags = 0\<rparr>)"
proof -
  define j where "j = nat k"
  have j: "1 \<le> j" "j < 256" "k = int j"
    using assms by (simp_all add: j_def)
  let ?g = "\<lambda>i::nat. str ''log'' @ [of_nat i :: u8, 0, 0, 0, 0]"
  let ?v = "\<lambda>i::nat. (4096 + 32 * of_nat i :: u32, \<lparr>hdr_size = 32, hdr_flags = 0\<rparr>)"
  have inj: "inj_on ?g (set [1..<256])"
    by (auto simp: inj_on_def intro: u8_of_nat_inj)
  have "j \<in> set [1..<256]" using j by simp
  with inj have m: "map_of (map (\<lambda>i. (?g i, ?v i)) [1..<256]) (?g j) = Some (?v j)"
    by (rule map_of_map_key)
  have nz: "(of_nat j :: u8) \<noteq> 0"
    using u8_of_nat_inj [of j 0] j by auto
  show ?thesis
    using m nz unfolding j(3) log_name
    by (simp add: jsfFindFile_def full_store_def str_def)
qed

lemma full_store_addr:
  assumes "1 \<le> k" "k \<le> 255"
  shows "(4096 + 32 * word_of_int k :: u32) \<noteq> 0"
proof -
  have "(4096 + 32 * word_of_int k :: u32) = word_of_int (4096 + 32 * k)"
    by simp
  moreover have "(word_of_int (4096 + 32 * k) :: u32) \<noteq> word_of_int 0"
    using assms word_of_int_inj [where 'a = 32, of "4096 + 32 * k" 0] by simp
  ultimately show ?thesis by simp
qed

lemma full_store_sized: "chunks_sized 32 full_store (str ''log'')"
  unfolding chunks_sized_def list_all_iff
  by (auto simp: full_store_find jsfGetFileSize_def)

lemma full_store_stream:
  assumes "1 \<le> k" "k \<le> 256"
  shows "stream_from_chunk 32 full_store (str ''log'') k =
           replicate (nat (256 - k) * 32) (ch CHR ''x'')"
  using assms
proof (induction "nat (256 - k)" arbitrary: k rule: less_induct)
  case less
  show ?case
  proof (cases "k = 256")
    case True
    then show ?thesis
      by (subst stream_from_chunk.simps) simp
  next
    case False
    with less.prems have k: "k \<le> 255" by simp
    have ih: "stream_from_chunk 32 full_store (str ''log'') (k + 1) =
        replicate (nat (256 - (k + 1)) * 32) (ch CHR ''x'')"
      using less.hyps [of "k + 1"] less.prems k by simp
    have r: "jshFlashRead full_store a 32 = replicate 32 (ch CHR ''x'')" for a
      by (simp add: jshFlashRead_def full_store_def map_replicate_const)
    have "nat (256 - k) = Suc (nat (256 - (k + 1)))"
      using k by arith
    then have n: "nat (256 - k) * 32 = 32 + nat (256 - (k + 1)) * 32"
      by (simp only: mult_Suc)
    show ?thesis
      using less.prems k full_store_addr [of k]
      by (subst stream_from_chunk.simps)
        (simp add: full_store_find Let_def ih r n replicate_add del: replicate_Suc)
  qed
qed

text \<open>
  The stream \<open>log\<close> of the full store: 255 chunks of 32 bytes, none of them \<open>0xFF\<close>, and
  no erased byte after them. The count of its bytes is \<open>255 * 32\<close>, whose quotient by 32
  plus one is 256 and whose remainder is 0, and the handle is at chunk 255, offset 32.
\<close>

theorem open_append_full_counterexample:
  "chunks_sized 32 full_store (str ''log'') \<and>
   stream_from_chunk 32 full_store (str ''log'') 1 =
     replicate (255 * 32) (ch CHR ''x'') @ replicate 0 255 \<and>
   data_count (stream_from_chunk 32 full_store (str ''log'') 1) = 255 * 32 \<and>
   (255 * 32) div 32 + 1 = (256 :: int) \<and> (255 * 32) mod 32 = (0 :: int) \<and>
   map_sum id sf_chunk (snd (jswrap_storage_open 32 full_store (str ''log'') (str ''a''))) =
     Inr 255 \<and>
   map_sum id sf_offset (snd (jswrap_storage_open 32 full_store (str ''log'') (str ''a''))) =
     Inr 32"
proof -
  have s: "stream_from_chunk 32 full_store (str ''log'') 1 =
      replicate (255 * 32) (ch CHR ''x'') @ replicate 0 255"
    using full_store_stream [of 1] by simp
  have d: "255 \<notin> set (replicate (255 * 32) (ch CHR ''x''))"
    by simp
  have c: "data_count (stream_from_chunk 32 full_store (str ''log'') 1) = 255 * 32"
    unfolding s using data_then_erased(3) [OF d, of 0] by simp
  obtain f where f: "jswrap_storage_open 32 full_store (str ''log'') (str ''a'') =
      (full_store, Inr f)" "sf_chunk f = 255" "sf_offset f = 32"
    using open_append_eq [OF _ full_store_sized s d] by auto
  show ?thesis
    using s c f full_store_sized by simp
qed

text \<open>
  C1, as amended. For a stream whose chunks have \<open>cs\<close> bytes each and whose content is
  some bytes \<open>d\<close> other than \<open>0xFF\<close> followed by erased bytes only: the count of the bytes
  that are not \<open>0xFF\<close> is the length of \<open>d\<close>; opening the stream in append mode changes
  nothing in the store and returns a handle whose address is that of its chunk, and, when
  the count is below \<open>255 * cs\<close>, whose chunk is the quotient of the count by \<open>cs\<close> plus
  one and whose offset is the remainder; when all of the 255 chunks are full the handle is
  at chunk 255 and offset \<open>cs\<close>.
\<close>

theorem open_append_position:
  assumes "0 < cs" and "chunks_sized cs st name"
    and "stream_from_chunk cs st name 1 = d @ replicate r 255" and "255 \<notin> set d"
  shows "data_count (stream_from_chunk cs st name 1) = length d \<and>
         (\<exists>f. jswrap_storage_open cs st name (str ''a'') = (st, Inr f) \<and>
           sf_addr f = fst (jsfFindFile st (chunk_name name (sf_chunk f))) \<and>
           (if data_count (stream_from_chunk cs st name 1) < 255 * cs
            then sf_chunk f = int (data_count (stream_from_chunk cs st name 1) div cs) + 1 \<and>
                 sf_offset f = int (data_count (stream_from_chunk cs st name 1) mod cs)
            else sf_chunk f = 255 \<and> sf_offset f = int cs))"
proof -
  have c: "data_count (stream_from_chunk cs st name 1) = length d"
    unfolding assms(3) using assms(4) by (rule data_then_erased(3))
  show ?thesis
    unfolding c using open_append_eq [OF assms] by (rule conjI [OF refl])
qed

theorem open_append_position_witness:
  "\<exists>f. jswrap_storage_open 32 scenario_store (str ''log'') (str ''a'') = (scenario_store, Inr f) \<and>
       sf_chunk f = 2 \<and> sf_offset f = 8 \<and> sf_addr f = 8192"
proof -
  have s: "stream_from_chunk 32 scenario_store (str ''log'') 1 =
      replicate 40 (ch CHR ''x'') @ replicate 24 255"
    by code_simp
  have c: "chunks_sized 32 scenario_store (str ''log'')"
    by code_simp
  have d: "255 \<notin> set (replicate 40 (ch CHR ''x''))"
    by simp
  have a: "fst (jsfFindFile scenario_store (chunk_name (str ''log'') 2)) = 8192"
    by code_simp
  show ?thesis
    using open_append_position [of 32 scenario_store "str ''log''", OF _ c s d] a
    by auto
qed

section \<open>StorageFile.erase\<close>

lemma log_set_chunk:
  "set_chunk (str ''log'' @ [b, 0, 0, 0, 0]) 3 c = str ''log'' @ [word_of_int c, 0, 0, 0, 0]"
  by (simp add: set_chunk_def str_def)

lemma erase_loop_full:
  fixes k :: nat
  assumes "1 \<le> k" "k \<le> 256"
  shows "files (erase_loop
           \<lparr>files = (str ''log'' @ [0, 0, 0, 0, 0], p) #
                    map (\<lambda>k. (str ''log'' @ [of_nat k, 0, 0, 0, 0], v k)) [k..<256],
            flash = m\<rparr>
           (str ''log'' @ [b, 0, 0, 0, 0]) 3 (int k)) = []"
  using assms
proof (induction "256 - k" arbitrary: k b rule: less_induct)
  case less
  let ?plain = "(str ''log'' @ [0, 0, 0, 0, 0], p)"
  let ?e = "\<lambda>k::nat. (str ''log'' @ [of_nat k :: u8, 0, 0, 0, 0], v k)"
  show ?case
  proof (cases "k = 256")
    case True
    have a: "erase_loop \<lparr>files = [], flash = m\<rparr> (str ''log'' @ [b', 0, 0, 0, 0]) 3 257 =
        \<lparr>files = [], flash = m\<rparr>" for b'
      by (subst erase_loop.simps) (simp add: log_set_chunk jsfEraseFile_def)
    have z: "(256 :: u8) = 0"
      by simp
    show ?thesis
      using True
      by (subst erase_loop.simps) (simp add: log_set_chunk jsfEraseFile_def a z)
  next
    case False
    with less.prems have k: "k < 256" by simp
    have nz: "(of_nat k :: u8) \<noteq> 0"
      using u8_of_nat_inj [of k 0] k less.prems(1) by auto
    have up: "[k..<256] = k # [Suc k..<256]"
      using k by (simp add: upt_conv_Cons)
    have f: "filter (\<lambda>r. fst r \<noteq> str ''log'' @ [of_nat k, 0, 0, 0, 0])
               (map ?e [Suc k..<256]) = map ?e [Suc k..<256]"
      using k by (auto simp: filter_id_conv dest!: u8_of_nat_inj [rotated 2])
    have sc: "set_chunk (str ''log'' @ [b, 0, 0, 0, 0]) 3 (int k) =
        str ''log'' @ [of_nat k, 0, 0, 0, 0]"
      by (simp add: log_set_chunk)
    have ih: "files (erase_loop \<lparr>files = ?plain # map ?e [Suc k..<256], flash = m\<rparr>
           (str ''log'' @ [of_nat k, 0, 0, 0, 0]) 3 (int (Suc k))) = []"
      using less.hyps [of "Suc k" "of_nat k"] k by simp
    show ?thesis
      using nz nz [symmetric] ih
      by (subst erase_loop.simps)
        (simp add: sc jsfEraseFile_def up f Let_def add.commute)
  qed
qed

text \<open>
  C3, at the store that holds the 255 chunks of the stream \<open>log\<close> and the plain file
  \<open>log\<close>: the loop of \<open>erase\<close> has no bound, so after chunk 255 it goes on to index 256,
  whose character is 0; the name is then that of the plain file, which is erased too, and
  no file is left.
\<close>

theorem erase_wraps_past_255:
  "jsfFindFile full_store (jsfNameFromVar (str ''log'')) = (2048, \<lparr>hdr_size = 32, hdr_flags = 0\<rparr>) \<and>
   length (files full_store) = 256 \<and>
   files (fst (jswrap_storagefile_erase full_store (log_handle CHR ''r'' 0))) = []"
proof -
  have n: "jsfNameFromVar (str ''log'') = str ''log'' @ [0, 0, 0, 0, 0]"
    by code_simp
  have i: "fnamei_loop (str ''log'' @ [0, 0, 0, 0, 0]) 7 = 3"
    by code_simp
  have "files (erase_loop full_store (str ''log'' @ [0, 0, 0, 0, 0]) 3 (int 1)) = []"
    unfolding full_store_def by (rule erase_loop_full) simp_all
  then show ?thesis
    by (simp add: jswrap_storagefile_erase_def log_handle_def n i jsfFindFile_def full_store_def
        Let_def)
qed

section \<open>StorageFile.read and readLine\<close>

subsection \<open>The scan of the buffer and one pass of the loop\<close>

lemma nl_code: "ch CHR 0x0A = (10 :: u8)"
  by simp

lemma scan_buf_None:
  "scan_buf rl buf i = None \<longleftrightarrow> (\<forall>b\<in>set buf. b \<noteq> 255 \<and> \<not> (rl \<and> b = 10))"
  by (induction buf arbitrary: i) auto

lemma scan_buf_Some:
  "scan_buf rl buf i = Some (l, rl') \<Longrightarrow>
   \<exists>p<length buf. (\<forall>b\<in>set (take p buf). b \<noteq> 255 \<and> \<not> (rl \<and> b = 10)) \<and>
      (if buf ! p = 255 then l = i + p \<and> rl' = rl
       else rl \<and> buf ! p = 10 \<and> l = i + p + 1 \<and> rl' = False)"
proof (induction buf arbitrary: i)
  case Nil
  then show ?case by simp
next
  case (Cons b bs)
  show ?case
  proof (cases "b = 255 \<or> (rl \<and> b = 10)")
    case True
    with Cons.prems show ?thesis
      by (intro exI [of _ 0]) (auto split: if_splits)
  next
    case False
    with Cons.prems have "scan_buf rl bs (i + 1) = Some (l, rl')"
      by (auto split: if_splits)
    from Cons.IH [OF this] obtain p where p: "p < length bs"
      "\<forall>b\<in>set (take p bs). b \<noteq> 255 \<and> \<not> (rl \<and> b = 10)"
      "if bs ! p = 255 then l = i + 1 + p \<and> rl' = rl
       else rl \<and> bs ! p = 10 \<and> l = i + 1 + p + 1 \<and> rl' = False"
      by auto
    show ?thesis
      using p False by (intro exI [of _ "Suc p"]) (auto split: if_splits)
  qed
qed

lemma read_body_last_chunk:
  assumes "int cs - rs_offset s \<le> 0" "rs_chunk s = 255"
  shows "read_body cs st fnamei s =
     (Return, s\<lparr>rs_offset := 0, rs_addr := 0,
                rs_f := (rs_f s)\<lparr>sf_addr := 0, sf_offset := 0, sf_chunk := 255\<rparr>\<rparr>)"
  using assms by (simp add: read_body_def Let_def)

lemma read_body_no_chunk:
  assumes "int cs - rs_offset s \<le> 0" "rs_chunk s \<noteq> 255" "rs_addr (advance st fnamei s) = 0"
  shows "read_body cs st fnamei s = (Return, advance st fnamei s)"
  using assms by (simp add: read_body_def advance_def Let_def)

lemma read_body_next_chunk:
  assumes "int cs - rs_offset s \<le> 0" "rs_chunk s \<noteq> 255" "rs_addr (advance st fnamei s) \<noteq> 0"
    and "0 < cs"
  shows "read_body cs st fnamei s = read_body cs st fnamei (advance st fnamei s)"
  using assms
  by (auto simp: read_body_def advance_def Let_def min_def split: option.split prod.split)

lemma read_loop_next_chunk:
  assumes "int cs - rs_offset s \<le> 0" "rs_chunk s \<noteq> 255" "rs_addr (advance st fnamei s) \<noteq> 0"
    and "0 < cs" and "rs_len s \<noteq> 0"
  shows "read_loop cs st fnamei s = read_loop cs st fnamei (advance st fnamei s)"
proof -
  have l: "rs_len (advance st fnamei s) = rs_len s"
    by (simp add: advance_def Let_def)
  show ?thesis
    using assms(5)
    by (subst (1 2) read_loop.simps) (simp add: l read_body_next_chunk [OF assms(1-4)])
qed

lemma read_body_read:
  assumes "0 < int cs - rs_offset s" "0 \<le> rs_offset s"
  shows "read_body cs st fnamei s =
     (let l0 = min (min (rs_len s) 32) (nat (int cs - rs_offset s));
          buf = take l0 (drop (nat (rs_offset s)) (jshFlashRead st (rs_addr s) cs));
          r = (case rs_result s of None \<Rightarrow> [] | Some r \<Rightarrow> r)
      in case scan_buf (rs_isReadLine s) buf 0 of
           None \<Rightarrow>
             (if l0 = 0 then (Break, s)
              else (Continue, s\<lparr>rs_result := Some (r @ buf),
                                rs_len := (if rs_isReadLine s then 32 else rs_len s - l0),
                                rs_offset := rs_offset s + int l0\<rparr>))
         | Some (l, rl) \<Rightarrow>
             (if l = 0 then (Break, s\<lparr>rs_len := 0, rs_isReadLine := rl\<rparr>)
              else (Continue, s\<lparr>rs_result := Some (r @ take l buf),
                                rs_len := (if rl then 32 else 0),
                                rs_offset := rs_offset s + int l,
                                rs_isReadLine := rl\<rparr>)))"
proof -
  define l0 where "l0 = min (min (rs_len s) 32) (nat (int cs - rs_offset s))"
  have "nat (rs_offset s) + l0 \<le> cs"
    using assms by (simp add: l0_def)
  from jshFlashRead_part [OF this, of st "rs_addr s"]
  have buf: "jshFlashRead st (rs_addr s + word_of_int (rs_offset s)) l0 =
      take l0 (drop (nat (rs_offset s)) (jshFlashRead st (rs_addr s) cs))"
    using assms(2) by simp
  show ?thesis
    using assms
    by (simp add: read_body_def Let_def l0_def [symmetric] buf
        split: option.split prod.split)
qed

subsection \<open>Lines and prefixes\<close>

lemma readable_append_data: "\<forall>b\<in>set buf. b \<noteq> 255 \<Longrightarrow> readable (buf @ X) = buf @ readable X"
  by (simp add: readable_def takeWhile_append2)

lemma readable_stop: "\<forall>b\<in>set pre. b \<noteq> 255 \<Longrightarrow> readable (pre @ 255 # X) = pre"
  by (simp add: readable_def takeWhile_append2)

lemma line_of_append: "\<forall>b\<in>set buf. b \<noteq> 10 \<Longrightarrow> line_of (buf @ Y) = buf @ line_of Y"
  by (simp add: line_of_def takeWhile_append2 dropWhile_append2)

lemma line_of_no_nl: "\<forall>b\<in>set pre. b \<noteq> 10 \<Longrightarrow> line_of pre = pre"
  using line_of_append [of pre "[]"] by (simp add: line_of_def)

lemma line_of_nl: "\<forall>b\<in>set pre. b \<noteq> 10 \<Longrightarrow> line_of (pre @ 10 # Y) = pre @ [10]"
  by (simp add: line_of_def takeWhile_append2 dropWhile_append2)

lemma want_data:
  assumes "\<forall>b\<in>set buf. b \<noteq> 255 \<and> \<not> (rl \<and> b = 10)" and "\<not> rl \<Longrightarrow> length buf \<le> len"
  shows "want rl len (readable (buf @ X)) =
           buf @ want rl (if rl then len' else len - length buf) (readable X)"
proof (cases rl)
  case True
  with assms(1) have "\<forall>b\<in>set buf. b \<noteq> 255" "\<forall>b\<in>set buf. b \<noteq> 10" by auto
  then show ?thesis
    using True by (simp add: want_def readable_append_data line_of_append)
next
  case False
  with assms(1) have "\<forall>b\<in>set buf. b \<noteq> 255" by auto
  then show ?thesis
    using False assms(2) by (simp add: want_def readable_append_data)
qed

lemma want_stop:
  assumes "\<forall>b\<in>set pre. b \<noteq> 255 \<and> \<not> (rl \<and> b = 10)" and "\<not> rl \<Longrightarrow> length pre \<le> len"
  shows "want rl len (readable (pre @ 255 # X)) = pre"
proof (cases rl)
  case True
  with assms(1) have "\<forall>b\<in>set pre. b \<noteq> 255" "\<forall>b\<in>set pre. b \<noteq> 10" by auto
  then show ?thesis
    using True by (simp add: want_def readable_stop line_of_no_nl)
next
  case False
  with assms(1) have "\<forall>b\<in>set pre. b \<noteq> 255" by auto
  then show ?thesis
    using False assms(2) by (simp add: want_def readable_stop)
qed

lemma want_nl:
  assumes "\<forall>b\<in>set pre. b \<noteq> 255 \<and> b \<noteq> 10"
  shows "want True len (readable (pre @ 10 # X)) = pre @ [10]"
proof -
  have "\<forall>b\<in>set (pre @ [10]). b \<noteq> (255 :: u8)"
    using assms by auto
  then have "readable ((pre @ [10]) @ X) = (pre @ [10]) @ readable X"
    by (rule readable_append_data)
  moreover have "\<forall>b\<in>set pre. b \<noteq> 10" using assms by auto
  ultimately show ?thesis
    by (simp add: want_def line_of_nl)
qed

lemma read_ok_continue:
  assumes "read_ok cs st name s2 r"
    and "rs_stream cs st name s = X @ rs_stream cs st name s2"
    and "rs_want cs st name s = X @ rs_want cs st name s2"
    and "X \<noteq> []"
    and "rs_result s2 = Some ((case rs_result s of None \<Rightarrow> [] | Some r \<Rightarrow> r) @ X)"
    and "sf_mode (rs_f s2) = sf_mode (rs_f s)"
  shows "read_ok cs st name s r"
  using assms by (auto simp: read_ok_def app_result_def)

subsection \<open>The loop\<close>

lemma read_loop_continue:
  "rs_len s \<noteq> 0 \<Longrightarrow> read_body cs st fnamei s = (Continue, s2) \<Longrightarrow>
   read_loop cs st fnamei s = read_loop cs st fnamei s2"
  by (subst read_loop.simps) simp

lemma read_loop_stop:
  "rs_len s \<noteq> 0 \<Longrightarrow> read_body cs st fnamei s = (c, s') \<Longrightarrow> c \<noteq> Continue \<Longrightarrow>
   read_loop cs st fnamei s = Some (c, s')"
  by (subst read_loop.simps) simp

lemma want_Nil: "want rl len (readable []) = []"
  by (simp add: want_def readable_def line_of_def)

lemma want_ff: "want rl len (readable (255 # X)) = []"
  by (simp add: want_def readable_def line_of_def)

lemma read_ok_end:
  assumes "rs_stream cs st name s = []"
    and "rs_result s' = rs_result s" "sf_name (rs_f s') = name" "sf_mode (rs_f s') = sf_mode (rs_f s)"
    and "sf_addr (rs_f s') = 0" "sf_offset (rs_f s') = 0" "1 \<le> sf_chunk (rs_f s')"
    and "sf_chunk (rs_f s') \<le> 255"
  shows "read_ok cs st name s (Return, s')"
  using assms
  by (simp add: read_ok_def rs_want_def want_Nil app_result_def final_handle_def stream_at_def)

lemma read_ok_break:
  assumes "rs_inv cs name fnamei s" and "rs_want cs st name s = []"
    and "rs_result s' = rs_result s" "rs_f s' = rs_f s" "rs_offset s' = rs_offset s"
  shows "read_ok cs st name s (Break, s')"
  using assms
  by (simp add: read_ok_def rs_inv_def app_result_def final_handle_def stream_at_def
      rs_stream_def)

lemma read_loop_ok:
  assumes cs: "0 < cs" and "rs_inv cs name fnamei s"
  shows "\<exists>r. read_loop cs st fnamei s = Some r \<and> read_ok cs st name s r"
  using assms(2)
proof (induction "nat (255 - rs_chunk s) * (cs + 1) + nat (int cs - rs_offset s)"
    arbitrary: s rule: less_induct)
  case less
  note inv = less.prems
  from inv have off0: "0 \<le> rs_offset s" and c1: "1 \<le> rs_chunk s" and c255: "rs_chunk s \<le> 255"
    and a: "rs_addr s \<noteq> 0" and fn: "rs_fname s = chunk_name name (rs_chunk s)"
    and fi: "fnamei = fnamei_loop (jsfNameFromVar name) 7"
    and rl32: "rs_isReadLine s \<Longrightarrow> rs_len s = 32"
    and nm: "sf_name (rs_f s) = name" and ha: "sf_addr (rs_f s) = rs_addr s"
    and hc: "sf_chunk (rs_f s) = rs_chunk s"
    by (simp_all add: rs_inv_def)
  let ?C = "jshFlashRead st (rs_addr s) cs"
  let ?D = "drop (nat (rs_offset s)) ?C"
  let ?rest = "stream_from_chunk cs st name (rs_chunk s + 1)"
  let ?rl = "rs_isReadLine s"
  have S: "rs_stream cs st name s = ?D @ ?rest"
    by (simp add: rs_stream_def pos_stream_def)
  show ?case
  proof (cases "rs_len s = 0")
    case True
    then have nrl: "\<not> ?rl" using rl32 by auto
    have loop: "read_loop cs st fnamei s = Some (Break, s)"
      using True by (subst read_loop.simps) simp
    have w: "rs_want cs st name s = []"
      using True nrl by (simp add: rs_want_def want_def)
    have "read_ok cs st name s (Break, s)"
      using inv w by (rule read_ok_break) simp_all
    with loop show ?thesis by simp
  next
    case False
    note len = this
    show ?thesis
    proof (cases "int cs - rs_offset s \<le> 0")
      case True
      note end_chunk = this
      then have D: "?D = []" by (simp add: length_jshFlashRead)
      show ?thesis
      proof (cases "rs_chunk s = 255")
        case True
        let ?s' = "s\<lparr>rs_offset := 0, rs_addr := 0,
                rs_f := (rs_f s)\<lparr>sf_addr := 0, sf_offset := 0, sf_chunk := 255\<rparr>\<rparr>"
        have "read_body cs st fnamei s = (Return, ?s')"
          using end_chunk True by (rule read_body_last_chunk)
        then have loop: "read_loop cs st fnamei s = Some (Return, ?s')"
          using len by (intro read_loop_stop) simp_all
        have "?rest = []"
          using True by (subst stream_from_chunk.simps) simp
        then have "rs_stream cs st name s = []"
          using S D by simp
        then have "read_ok cs st name s (Return, ?s')"
          by (rule read_ok_end) (simp_all add: nm)
        with loop show ?thesis by simp
      next
        case False
        then have c: "rs_chunk s < 255" using c255 by simp
        let ?s1 = "advance st fnamei s"
        let ?a1 = "fst (jsfFindFile st (chunk_name name (rs_chunk s + 1)))"
        have s1: "rs_chunk ?s1 = rs_chunk s + 1" "rs_offset ?s1 = 0" "rs_len ?s1 = rs_len s"
          "rs_isReadLine ?s1 = ?rl" "rs_result ?s1 = rs_result s"
          "rs_fname ?s1 = chunk_name name (rs_chunk s + 1)" "rs_addr ?s1 = ?a1"
          "rs_f ?s1 = (rs_f s)\<lparr>sf_addr := ?a1, sf_offset := 0, sf_chunk := rs_chunk s + 1\<rparr>"
          by (simp_all add: advance_def Let_def fn fi set_chunk_chunk_name)
        have rest: "?rest = (if ?a1 = 0 then []
            else jshFlashRead st ?a1 cs @ stream_from_chunk cs st name (rs_chunk s + 1 + 1))"
          using c c1 by (subst stream_from_chunk.simps) (simp add: Let_def)
        show ?thesis
        proof (cases "?a1 = 0")
          case True
          have "read_body cs st fnamei s = (Return, ?s1)"
            using end_chunk False by (rule read_body_no_chunk) (simp add: s1 True)
          then have loop: "read_loop cs st fnamei s = Some (Return, ?s1)"
            using len by (intro read_loop_stop) simp_all
          have "rs_stream cs st name s = []"
            using S D rest True by simp
          then have "read_ok cs st name s (Return, ?s1)"
            by (rule read_ok_end) (use c c1 in \<open>simp_all add: s1 True nm\<close>)
          with loop show ?thesis by simp
        next
          case False
          have loop: "read_loop cs st fnamei s = read_loop cs st fnamei ?s1"
            using end_chunk \<open>rs_chunk s \<noteq> 255\<close> _ cs len
            by (rule read_loop_next_chunk) (simp add: s1 False)
          have inv1: "rs_inv cs name fnamei ?s1"
            using c c1 False rl32 by (simp add: rs_inv_def s1 fi [symmetric] nm)
          have "nat (255 - (rs_chunk s + 1)) * (cs + 1) + cs <
              nat (255 - rs_chunk s) * (cs + 1)"
          proof -
            have "nat (255 - rs_chunk s) = Suc (nat (255 - (rs_chunk s + 1)))"
              using c by arith
            then show ?thesis by simp
          qed
          then have m: "nat (255 - rs_chunk ?s1) * (cs + 1) + nat (int cs - rs_offset ?s1) <
              nat (255 - rs_chunk s) * (cs + 1) + nat (int cs - rs_offset s)"
            by (simp add: s1)
          from less.hyps [OF m inv1] obtain r where
            r: "read_loop cs st fnamei ?s1 = Some r" "read_ok cs st name ?s1 r"
            by blast
          have st1: "rs_stream cs st name ?s1 = rs_stream cs st name s"
            using S D rest False by (simp add: rs_stream_def pos_stream_def s1)
          then have "rs_want cs st name ?s1 = rs_want cs st name s"
            by (simp add: rs_want_def s1)
          with r(2) st1 have "read_ok cs st name s r"
            by (simp add: read_ok_def s1)
          with r(1) loop show ?thesis by simp
        qed
      qed
    next
      case False
      then have rem: "0 < int cs - rs_offset s" by simp
      define l0 where "l0 = min (min (rs_len s) 32) (nat (int cs - rs_offset s))"
      define buf where "buf = take l0 ?D"
      define res where "res = (case rs_result s of None \<Rightarrow> [] | Some r \<Rightarrow> r)"
      have lenD: "length ?D = nat (int cs - rs_offset s)"
        using off0 rem by (simp add: length_jshFlashRead nat_diff_distrib)
      have l0': "0 < l0" "l0 \<le> rs_len s" "l0 \<le> nat (int cs - rs_offset s)"
        using len rem by (simp_all add: l0_def)
      have l0'': "l0 \<le> length ?D" "l0 \<le> cs - nat (rs_offset s)"
        using l0'(3) lenD by (simp_all add: length_jshFlashRead)
      note l0 = l0'(1,2) l0''(1) l0''(2)
      have lbuf: "length buf = l0"
        using l0 by (simp add: buf_def)
      note body = read_body_read [OF rem off0, of st fnamei, unfolded Let_def,
          folded l0_def, folded buf_def, folded res_def]
      have stream_after: "rs_stream cs st name (s\<lparr>rs_offset := rs_offset s + int l\<rparr>) =
          drop l ?D @ ?rest" for l
        using off0 by (simp add: rs_stream_def pos_stream_def nat_add_distrib add.commute)
      have meas: "nat (255 - rs_chunk s) * (cs + 1) + nat (int cs - (rs_offset s + int l)) <
          nat (255 - rs_chunk s) * (cs + 1) + nat (int cs - rs_offset s)" if "0 < l" for l
        using that rem by simp
      show ?thesis
      proof (cases "scan_buf ?rl buf 0")
        case None
        define s2 where "s2 = s\<lparr>rs_result := Some (res @ buf),
              rs_len := (if ?rl then 32 else rs_len s - l0),
              rs_offset := rs_offset s + int l0\<rparr>"
        have ok: "\<forall>b\<in>set buf. b \<noteq> 255 \<and> \<not> (?rl \<and> b = 10)"
          using None by (simp add: scan_buf_None)
        have "read_body cs st fnamei s = (Continue, s2)"
          using None l0(1) by (simp add: body s2_def)
        then have loop: "read_loop cs st fnamei s = read_loop cs st fnamei s2"
          using len by (intro read_loop_continue)
        have inv2: "rs_inv cs name fnamei s2"
          using inv off0 by (simp add: rs_inv_def s2_def)
        have m: "nat (255 - rs_chunk s2) * (cs + 1) + nat (int cs - rs_offset s2) <
              nat (255 - rs_chunk s) * (cs + 1) + nat (int cs - rs_offset s)"
          using meas [OF l0(1)] by (simp add: s2_def)
        from less.hyps [OF m inv2] obtain r where
          r: "read_loop cs st fnamei s2 = Some r" "read_ok cs st name s2 r"
          by blast
        have st2: "rs_stream cs st name s2 = drop l0 ?D @ ?rest"
          using stream_after [of l0] by (simp add: rs_stream_def s2_def)
        have "?D = buf @ drop l0 ?D"
          by (simp only: buf_def append_take_drop_id)
        then have st: "rs_stream cs st name s = buf @ rs_stream cs st name s2"
          using S st2 by (metis append_assoc)
        have w2: "rs_want cs st name s2 =
            want ?rl (if ?rl then 32 else rs_len s - l0) (readable (rs_stream cs st name s2))"
          by (simp add: rs_want_def s2_def)
        have w: "rs_want cs st name s = buf @ rs_want cs st name s2"
          unfolding w2 unfolding rs_want_def st
          using want_data [OF ok, of "rs_len s" "rs_stream cs st name s2" 32] l0(2) lbuf
          by simp
        have "read_ok cs st name s r"
          using r(2) st w
          by (rule read_ok_continue) (use l0 lbuf in \<open>auto simp: res_def s2_def\<close>)
        with r(1) loop show ?thesis by simp
      next
        case (Some lr)
        obtain l rl' where lr: "lr = (l, rl')" by (cases lr)
        from scan_buf_Some [OF Some [unfolded lr]] obtain p where p: "p < length buf"
          and pre: "\<forall>b\<in>set (take p buf). b \<noteq> 255 \<and> \<not> (?rl \<and> b = 10)"
          and stop: "if buf ! p = 255 then l = 0 + p \<and> rl' = ?rl
               else ?rl \<and> buf ! p = 10 \<and> l = 0 + p + 1 \<and> rl' = False"
          by blast
        have pD: "p < length ?D" "p < l0"
          using p lbuf l0 by simp_all
        have bp: "buf ! p = ?D ! p" "take p buf = take p ?D" "take (Suc p) buf = take (Suc p) ?D"
          using pD by (simp_all add: buf_def min_def)
        have split: "?D = take p ?D @ ?D ! p # drop (Suc p) ?D"
          using pD(1) by (rule id_take_nth_drop)
        show ?thesis
        proof (cases "buf ! p = 255")
          case True
          with stop have l: "l = p" "rl' = ?rl" by simp_all
          have "rs_stream cs st name s = take p ?D @ 255 # (drop (Suc p) ?D @ ?rest)"
            using S split True bp(1) by (metis append_Cons append_assoc)
          then have w: "rs_want cs st name s = take p ?D"
            unfolding rs_want_def
            using want_stop [OF pre [unfolded bp(2)], of "rs_len s"] pD l0 by simp
          show ?thesis
          proof (cases "p = 0")
            case True
            let ?s' = "s\<lparr>rs_len := 0, rs_isReadLine := rl'\<rparr>"
            have "read_body cs st fnamei s = (Break, ?s')"
              using Some lr l True by (simp add: body)
            then have loop: "read_loop cs st fnamei s = Some (Break, ?s')"
              using len by (intro read_loop_stop) simp_all
            have "read_ok cs st name s (Break, ?s')"
              using inv by (rule read_ok_break) (simp_all add: w True)
            with loop show ?thesis by simp
          next
            case False
            define s2 where "s2 = s\<lparr>rs_result := Some (res @ take p buf),
              rs_len := (if ?rl then 32 else 0),
              rs_offset := rs_offset s + int p, rs_isReadLine := ?rl\<rparr>"
            have "read_body cs st fnamei s = (Continue, s2)"
              using Some lr l False by (simp add: body s2_def)
            then have loop: "read_loop cs st fnamei s = read_loop cs st fnamei s2"
              using len by (intro read_loop_continue)
            have inv2: "rs_inv cs name fnamei s2"
              using inv off0 by (simp add: rs_inv_def s2_def)
            have m: "nat (255 - rs_chunk s2) * (cs + 1) + nat (int cs - rs_offset s2) <
              nat (255 - rs_chunk s) * (cs + 1) + nat (int cs - rs_offset s)"
              using meas [of p] False by (simp add: s2_def)
            from less.hyps [OF m inv2] obtain r where
              r: "read_loop cs st fnamei s2 = Some r" "read_ok cs st name s2 r"
              by blast
            have st2: "rs_stream cs st name s2 = drop p ?D @ ?rest"
              using stream_after [of p] by (simp add: rs_stream_def s2_def)
            have "?D = take p ?D @ drop p ?D"
              by (simp only: append_take_drop_id)
            then have st: "rs_stream cs st name s = take p ?D @ rs_stream cs st name s2"
              using S st2 by (metis append_assoc)
            have "drop p ?D = ?D ! p # drop (Suc p) ?D"
              using pD(1) by (rule Cons_nth_drop_Suc [symmetric])
            then have "drop p ?D = 255 # drop (Suc p) ?D"
              using True bp(1) by metis
            then have w2: "rs_want cs st name s2 = []"
              unfolding rs_want_def st2 by (simp add: want_ff)
            have w': "rs_want cs st name s = take p ?D @ rs_want cs st name s2"
              using w w2 by simp
            have "read_ok cs st name s r"
              using r(2) st w'
              by (rule read_ok_continue) (use False pD in \<open>auto simp: res_def bp s2_def\<close>)
            with r(1) loop show ?thesis by simp
          qed
        next
          case False
          with stop have l: "l = Suc p" "rl' = False" and rl: "?rl" and nl: "buf ! p = 10"
            by simp_all
          define s2 where "s2 = s\<lparr>rs_result := Some (res @ take (Suc p) buf),
              rs_len := 0,
              rs_offset := rs_offset s + int (Suc p), rs_isReadLine := False\<rparr>"
          have "read_body cs st fnamei s = (Continue, s2)"
            using Some lr l by (simp add: body s2_def)
          then have loop: "read_loop cs st fnamei s = read_loop cs st fnamei s2"
            using len by (intro read_loop_continue)
          have inv2: "rs_inv cs name fnamei s2"
            using inv off0 by (simp add: rs_inv_def s2_def)
          have m: "nat (255 - rs_chunk s2) * (cs + 1) + nat (int cs - rs_offset s2) <
              nat (255 - rs_chunk s) * (cs + 1) + nat (int cs - rs_offset s)"
            using meas [of "Suc p"] by (simp add: s2_def)
          from less.hyps [OF m inv2] obtain r where
            r: "read_loop cs st fnamei s2 = Some r" "read_ok cs st name s2 r"
            by blast
          have st2: "rs_stream cs st name s2 = drop (Suc p) ?D @ ?rest"
            using stream_after [of "Suc p"] by (simp add: rs_stream_def s2_def)
          have D2: "?D = take (Suc p) ?D @ drop (Suc p) ?D"
            by (simp only: append_take_drop_id)
          then have st: "rs_stream cs st name s = take (Suc p) ?D @ rs_stream cs st name s2"
            using S st2 by (metis append_assoc)
          have pre': "\<forall>b\<in>set (take p ?D). b \<noteq> 255 \<and> b \<noteq> 10"
            using pre rl by (simp add: bp)
          have "rs_stream cs st name s = take p ?D @ 10 # (drop (Suc p) ?D @ ?rest)"
            using S split nl bp(1) by (metis append_Cons append_assoc)
          then have w: "rs_want cs st name s = take p ?D @ [10]"
            unfolding rs_want_def using want_nl [OF pre'] rl by simp
          have t: "take (Suc p) ?D = take p ?D @ [10]"
            using pD(1) nl bp(1) by (simp add: take_Suc_conv_app_nth)
          have w2: "rs_want cs st name s2 = []"
            by (simp add: rs_want_def want_def s2_def)
          have w': "rs_want cs st name s = take (Suc p) ?D @ rs_want cs st name s2"
            using w w2 t by simp
          have "read_ok cs st name s r"
            using r(2) st w'
            by (rule read_ok_continue) (use pD in \<open>auto simp: res_def bp s2_def\<close>)
          with r(1) loop show ?thesis by simp
        qed
      qed
    qed
  qed
qed

lemma want_rl: "want True len R = line_of R" and want_len: "want False len R = take len R"
  by (simp_all add: want_def)

lemma read_internal_ok:
  assumes "0 < cs" and "sf_mode f = ch CHR ''r''" and "0 \<le> sf_offset f"
    and "1 \<le> sf_chunk f" and "sf_chunk f \<le> 255"
    and "bs = want (len < 0) (nat len) (readable (stream_at cs st f))"
  shows "\<exists>f'. jswrap_storagefile_read_internal cs st f len = Some (f', Inr (result_of bs)) \<and>
           sf_name f' = sf_name f \<and> sf_mode f' = sf_mode f \<and>
           0 \<le> sf_offset f' \<and> 1 \<le> sf_chunk f' \<and> sf_chunk f' \<le> 255 \<and>
           stream_at cs st f' = drop (length bs) (stream_at cs st f)"
proof (cases "sf_addr f = 0")
  case True
  then have "bs = []"
    using assms(6) by (simp add: stream_at_def want_Nil)
  then show ?thesis
    using True assms(2-5)
    by (simp add: jswrap_storagefile_read_internal_def result_of_def stream_at_def)
next
  case False
  define name where "name = sf_name f"
  define fnamei where "fnamei = fnamei_loop (jsfNameFromVar name) 7"
  define s0 where "s0 = \<lparr>rs_len = (if len < 0 then 32 else nat len), rs_offset = sf_offset f,
      rs_chunk = sf_chunk f, rs_addr = sf_addr f,
      rs_fname = set_chunk (jsfNameFromVar name) fnamei (sf_chunk f), rs_result = None,
      rs_isReadLine = len < 0, rs_f = f\<rparr>"
  have inv: "rs_inv cs name fnamei s0"
    using assms(3-5) False
    by (simp add: rs_inv_def s0_def chunk_name_unfold fnamei_def name_def)
  from read_loop_ok [OF assms(1) inv, of st] obtain r where
    r: "read_loop cs st fnamei s0 = Some r" "read_ok cs st name s0 r"
    by blast
  have st0: "rs_stream cs st name s0 = stream_at cs st f"
    using False by (simp add: rs_stream_def stream_at_def s0_def name_def)
  have "rs_want cs st name s0 = bs"
    unfolding rs_want_def st0 assms(6) by (cases "len < 0") (simp_all add: s0_def want_def)
  with r(2) st0 have ok: "rs_result (snd r) = result_of bs"
    "sf_name (final_handle r) = sf_name f" "sf_mode (final_handle r) = sf_mode f"
    "0 \<le> sf_offset (final_handle r)" "1 \<le> sf_chunk (final_handle r)"
    "sf_chunk (final_handle r) \<le> 255"
    "stream_at cs st (final_handle r) = drop (length bs) (stream_at cs st f)"
    by (simp_all add: read_ok_def app_result_def result_of_def s0_def name_def)
  have "jswrap_storagefile_read_internal cs st f len =
      Some (final_handle r, Inr (rs_result (snd r)))"
    using False assms(2) r(1)
    by (simp add: jswrap_storagefile_read_internal_def Let_def name_def [symmetric]
        fnamei_def [symmetric] s0_def [symmetric] final_handle_def split: prod.split)
  with ok show ?thesis by simp
qed

subsection \<open>read\<close>

text \<open>A handle opened for reading is at chunk 1, offset 0, and the store is as it was.\<close>

lemma open_read_handle:
  "jswrap_storage_open cs st name (str ''r'') =
     (st, Inr \<lparr>sf_name = take 8 name, sf_chunk = 1, sf_offset = 0,
                sf_addr = fst (jsfFindFile st (chunk_name name 1)), sf_mode = ch CHR ''r''\<rparr>)"
  by (simp add: jswrap_storage_open_def str_def Let_def chunk_name_unfold jsfNameFromVar_take
      split: prod.split)

text \<open>
  C2. For a handle in mode \<open>r\<close> (with an offset that is not negative and a chunk index
  from 1 to 255) and every length \<open>len\<close>, \<open>read\<close> returns. The stream at the handle is
  the rest of its chunk followed by the chunks after it, up to the first chunk that does
  not exist and to chunk 255 at most; what is readable of it ends before its first
  \<open>0xFF\<close>. The result is the first \<open>len\<close> bytes of the readable bytes, all of them when
  they are fewer: \<open>read\<close> stops early exactly at a \<open>0xFF\<close>, at the end of chunk 255 or
  at a missing chunk. It is nothing iff no byte was read. The handle returned keeps name
  and mode, is well formed again, and its stream is the stream of the handle given
  without the bytes returned.
\<close>

theorem read_returns_prefix:
  assumes "0 < cs" and "sf_mode f = ch CHR ''r''" and "0 \<le> sf_offset f"
    and "1 \<le> sf_chunk f" and "sf_chunk f \<le> 255"
  shows "\<exists>f'. jswrap_storagefile_read cs st f len =
             Some (f', Inr (result_of (take (nat len) (readable (stream_at cs st f))))) \<and>
           sf_name f' = sf_name f \<and> sf_mode f' = sf_mode f \<and>
           0 \<le> sf_offset f' \<and> 1 \<le> sf_chunk f' \<and> sf_chunk f' \<le> 255 \<and>
           stream_at cs st f' =
             drop (length (take (nat len) (readable (stream_at cs st f)))) (stream_at cs st f)"
proof -
  let ?len = "if len < 0 then 0 else len"
  have "take (nat len) (readable (stream_at cs st f)) =
      want (?len < 0) (nat ?len) (readable (stream_at cs st f))"
    by (simp add: want_def)
  from read_internal_ok [OF assms this] show ?thesis
    by (simp add: jswrap_storagefile_read_def)
qed

theorem read_returns_prefix_witness:
  "\<exists>f1 f2 f3.
     jswrap_storagefile_read 32 scenario_store (log_handle CHR ''r'' 0) 35 =
       Some (f1, Inr (Some (replicate 35 (ch CHR ''x'')))) \<and>
     jswrap_storagefile_read 32 scenario_store f1 100 =
       Some (f2, Inr (Some (replicate 5 (ch CHR ''x'')))) \<and>
     jswrap_storagefile_read 32 scenario_store f2 100 = Some (f3, Inr None)"
proof -
  let ?x = "ch CHR ''x''"
  have S: "stream_at 32 scenario_store (log_handle CHR ''r'' 0) =
      replicate 40 ?x @ replicate 24 255"
    by code_simp
  have b1: "take (nat 35) (readable (replicate 40 ?x @ replicate 24 255)) = replicate 35 ?x"
    "drop (length (replicate 35 ?x)) (replicate 40 ?x @ replicate 24 255) =
       replicate 5 ?x @ replicate 24 255"
    by code_simp+
  have b2: "take (nat 100) (readable (replicate 5 ?x @ replicate 24 255)) = replicate 5 ?x"
    "drop (length (replicate 5 ?x)) (replicate 5 ?x @ replicate 24 255) = replicate 24 255"
    by code_simp+
  have b3: "take (nat 100) (readable (replicate 24 255)) = []"
    by code_simp
  have r: "result_of (replicate 35 ?x) = Some (replicate 35 ?x)"
    "result_of (replicate 5 ?x) = Some (replicate 5 ?x)" "result_of [] = None"
    by (simp_all add: result_of_def)
  from read_returns_prefix [of 32 "log_handle CHR ''r'' 0" scenario_store 35]
  obtain f1 where f1:
    "jswrap_storagefile_read 32 scenario_store (log_handle CHR ''r'' 0) 35 =
       Some (f1, Inr (Some (replicate 35 ?x)))"
    "sf_mode f1 = ch CHR ''r''" "0 \<le> sf_offset f1" "1 \<le> sf_chunk f1" "sf_chunk f1 \<le> 255"
    "stream_at 32 scenario_store f1 = replicate 5 ?x @ replicate 24 255"
    unfolding S b1 r by (auto simp: log_handle_def)
  from read_returns_prefix [OF _ f1(2-5), of 32 scenario_store 100]
  obtain f2 where f2:
    "jswrap_storagefile_read 32 scenario_store f1 100 = Some (f2, Inr (Some (replicate 5 ?x)))"
    "sf_mode f2 = ch CHR ''r''" "0 \<le> sf_offset f2" "1 \<le> sf_chunk f2" "sf_chunk f2 \<le> 255"
    "stream_at 32 scenario_store f2 = replicate 24 255"
    unfolding f1(6) b2 r using f1(2) by auto
  from read_returns_prefix [OF _ f2(2-5), of 32 scenario_store 100]
  obtain f3 where "jswrap_storagefile_read 32 scenario_store f2 100 = Some (f3, Inr None)"
    unfolding f2(6) b3 r by auto
  with f1(1) f2(1) show ?thesis by blast
qed

subsection \<open>readLine\<close>

text \<open>
  C7. For a handle in mode \<open>r\<close> (with an offset that is not negative and a chunk index
  from 1 to 255), \<open>readLine\<close> returns, as \<open>read\<close> does, a prefix of the readable bytes
  of the stream at the handle: their first line, which ends after the first newline and
  holds it, or all of them when they hold no newline; nothing iff that is empty. The
  handle returned is at the stream without the bytes returned. The theorem after it is
  the example of the claim: after \<open>one\<close>, newline, \<open>two\<close>, newline, \<open>three\<close> was
  written to a fresh stream, four calls return the three lines and then nothing.
\<close>

theorem readLine_returns_line:
  assumes "0 < cs" and "sf_mode f = ch CHR ''r''" and "0 \<le> sf_offset f"
    and "1 \<le> sf_chunk f" and "sf_chunk f \<le> 255"
  shows "\<exists>f'. jswrap_storagefile_readLine cs st f =
             Some (f', Inr (result_of (line_of (readable (stream_at cs st f))))) \<and>
           sf_name f' = sf_name f \<and> sf_mode f' = sf_mode f \<and>
           0 \<le> sf_offset f' \<and> 1 \<le> sf_chunk f' \<and> sf_chunk f' \<le> 255 \<and>
           stream_at cs st f' =
             drop (length (line_of (readable (stream_at cs st f)))) (stream_at cs st f)"
proof -
  have "line_of (readable (stream_at cs st f)) =
      want (- 1 < (0::int)) (nat (- 1)) (readable (stream_at cs st f))"
    by (simp add: want_def)
  from read_internal_ok [OF assms this] show ?thesis
    by (simp add: jswrap_storagefile_readLine_def)
qed

theorem readLine_returns_line_witness:
  "\<exists>f1 f2 f3 f4.
     jswrap_storage_open 32 lines_store (str ''log'') (str ''r'') =
       (lines_store, Inr (log_handle CHR ''r'' 0)) \<and>
     jswrap_storagefile_readLine 32 lines_store (log_handle CHR ''r'' 0) =
       Some (f1, Inr (Some (str ''one'' @ [10]))) \<and>
     jswrap_storagefile_readLine 32 lines_store f1 = Some (f2, Inr (Some (str ''two'' @ [10]))) \<and>
     jswrap_storagefile_readLine 32 lines_store f2 = Some (f3, Inr (Some (str ''three''))) \<and>
     jswrap_storagefile_readLine 32 lines_store f3 = Some (f4, Inr None)"
proof -
  let ?S1 = "str ''two'' @ [10] @ str ''three'' @ replicate 19 255"
  let ?S2 = "str ''three'' @ replicate 19 255"
  have o: "snd (jswrap_storage_open 32 lines_store (str ''log'') (str ''r'')) =
      Inr (log_handle CHR ''r'' 0)"
    by code_simp
  have o': "fst (jswrap_storage_open 32 lines_store (str ''log'') (str ''r'')) = lines_store"
    by (simp add: jswrap_storage_open_def str_def Let_def split: prod.split)
  have S: "stream_at 32 lines_store (log_handle CHR ''r'' 0) = three_lines @ replicate 19 255"
    by code_simp
  have b1: "line_of (readable (three_lines @ replicate 19 255)) = str ''one'' @ [10]"
    "drop (length (str ''one'' @ [10 :: u8])) (three_lines @ replicate 19 255) = ?S1"
    by code_simp+
  have b2: "line_of (readable ?S1) = str ''two'' @ [10]"
    "drop (length (str ''two'' @ [10 :: u8])) ?S1 = ?S2"
    by code_simp+
  have b3: "line_of (readable ?S2) = str ''three''"
    "drop (length (str ''three'')) ?S2 = replicate 19 255"
    by code_simp+
  have b4: "line_of (readable (replicate 19 255)) = []"
    by code_simp
  have r: "result_of (str ''one'' @ [10]) = Some (str ''one'' @ [10])"
    "result_of (str ''two'' @ [10]) = Some (str ''two'' @ [10])"
    "result_of (str ''three'') = Some (str ''three'')" "result_of [] = None"
    by (simp_all add: result_of_def str_def)
  from readLine_returns_line [of 32 "log_handle CHR ''r'' 0" lines_store]
  obtain f1 where f1:
    "jswrap_storagefile_readLine 32 lines_store (log_handle CHR ''r'' 0) =
       Some (f1, Inr (Some (str ''one'' @ [10])))"
    "sf_mode f1 = ch CHR ''r''" "0 \<le> sf_offset f1" "1 \<le> sf_chunk f1" "sf_chunk f1 \<le> 255"
    "stream_at 32 lines_store f1 = ?S1"
    unfolding S b1 r by (auto simp: log_handle_def)
  from readLine_returns_line [OF _ f1(2-5), of 32 lines_store]
  obtain f2 where f2:
    "jswrap_storagefile_readLine 32 lines_store f1 = Some (f2, Inr (Some (str ''two'' @ [10])))"
    "sf_mode f2 = ch CHR ''r''" "0 \<le> sf_offset f2" "1 \<le> sf_chunk f2" "sf_chunk f2 \<le> 255"
    "stream_at 32 lines_store f2 = ?S2"
    unfolding f1(6) b2 r using f1(2) by auto
  from readLine_returns_line [OF _ f2(2-5), of 32 lines_store]
  obtain f3 where f3:
    "jswrap_storagefile_readLine 32 lines_store f2 = Some (f3, Inr (Some (str ''three'')))"
    "sf_mode f3 = ch CHR ''r''" "0 \<le> sf_offset f3" "1 \<le> sf_chunk f3" "sf_chunk f3 \<le> 255"
    "stream_at 32 lines_store f3 = replicate 19 255"
    unfolding f2(6) b3 r using f2(2) by auto
  from readLine_returns_line [OF _ f3(2-5), of 32 lines_store]
  obtain f4 where "jswrap_storagefile_readLine 32 lines_store f3 = Some (f4, Inr None)"
    unfolding f3(6) b4 r by auto
  with f1(1) f2(1) f3(1) o o' show ?thesis
    by (metis prod.collapse)
qed

end
